theory Spec2Isabelle
  imports Main
begin

section \<open>Data model of the plugin dashboard updater\<close>

text \<open>
  The development embeds \<^verbatim>\<open>pkg/services/plugindashboards/service/dashboard_updater.go\<close>.
  Identifiers and revisions are \<^verbatim>\<open>int64\<close> in the source; the updater only compares and
  forwards them, so they are integers here. A Go \<^verbatim>\<open>error\<close> value is identified by its
  message. The dashboard JSON document is opaque to the updater and is a string.
\<close>

datatype error = Error string

type_synonym json = string

datatype RoleType = ROLE_VIEWER | ROLE_EDITOR | ROLE_ADMIN

text \<open>\<^verbatim>\<open>models.PluginSetting\<close>: the fields the updater reads.\<close>

record PluginSetting =
  ps_OrgId :: int
  ps_PluginId :: string
  ps_Enabled :: bool
  ps_PluginVersion :: string

text \<open>\<^verbatim>\<open>plugins.PluginDTO\<close>: \<^verbatim>\<open>ID\<close> and \<^verbatim>\<open>Info.Version\<close>.\<close>

record PluginDTO =
  dto_ID :: string
  dto_Info_Version :: string

text \<open>\<^verbatim>\<open>plugindashboards.PluginDashboard\<close>, one entry of \<^verbatim>\<open>resp.Items\<close>.\<close>

record PluginDashboard =
  pd_PluginId :: string
  pd_DashboardId :: int
  pd_Slug :: string
  pd_Reference :: string
  pd_Revision :: int
  pd_ImportedRevision :: int
  pd_Removed :: bool

text \<open>\<^verbatim>\<open>models.Dashboard\<close>, one entry of the result of \<^verbatim>\<open>GetDashboardsByPluginID\<close>.\<close>

record Dashboard =
  db_Id :: int
  db_OrgId :: int
  db_Slug :: string

text \<open>The dashboard returned by \<^verbatim>\<open>LoadPluginDashboard\<close>: \<^verbatim>\<open>Title\<close> and \<^verbatim>\<open>Data\<close>.\<close>

record LoadedDashboard =
  ld_Title :: string
  ld_Data :: json

record SignedInUser =
  su_UserId :: int
  su_OrgRole :: RoleType
  su_OrgId :: int

datatype ImportDashboardInput = ImportDashboardInput string string string string

record ImportDashboardRequest =
  req_PluginId :: string
  req_User :: SignedInUser
  req_Path :: string
  req_FolderId :: int
  req_Dashboard :: json
  req_Overwrite :: bool
  req_Inputs :: "ImportDashboardInput list"

text \<open>\<^verbatim>\<open>models.PluginStateChangedEvent\<close>.\<close>

record PluginStateChangedEvent =
  ev_PluginId :: string
  ev_OrgId :: int
  ev_Enabled :: bool

section \<open>The collaborators\<close>

text \<open>
  The updater holds six services behind interfaces. Their implementations are not part of
  the updater, so each method is a parameter: a function from its arguments and the
  current state of the outside world \<open>'w\<close> to its result and the next state of the world.
  Nothing is assumed about what a method does, whether it succeeds or not. A method that
  returns \<^verbatim>\<open>(value, error)\<close> gives \<open>Inl\<close> of the error or \<open>Inr\<close> of the value; one that
  returns only \<^verbatim>\<open>error\<close> gives an \<open>error option\<close>, \<open>None\<close> for \<^verbatim>\<open>nil\<close>. A \<^verbatim>\<open>nil\<close> error
  comes with a usable result (the source dereferences it without a check). The
  request structs with two or three fields are passed as their fields, in the order of
  the struct; the response of \<^verbatim>\<open>ImportDashboard\<close> is discarded by the caller and left out.
\<close>

record 'w Services =
  GetPluginSettings :: "int \<Rightarrow> 'w \<Rightarrow> (error + PluginSetting list) \<times> 'w"
  Plugin :: "string \<Rightarrow> 'w \<Rightarrow> PluginDTO option \<times> 'w"
  ListPluginDashboards :: "int \<Rightarrow> string \<Rightarrow> 'w \<Rightarrow> (error + PluginDashboard list) \<times> 'w"
  LoadPluginDashboard :: "string \<Rightarrow> string \<Rightarrow> 'w \<Rightarrow> (error + LoadedDashboard) \<times> 'w"
  ImportDashboard :: "ImportDashboardRequest \<Rightarrow> 'w \<Rightarrow> error option \<times> 'w"
  DeleteDashboard :: "int \<Rightarrow> int \<Rightarrow> 'w \<Rightarrow> error option \<times> 'w"
  GetPluginSettingById :: "string \<Rightarrow> int \<Rightarrow> 'w \<Rightarrow> (error + PluginSetting) \<times> 'w"
  UpdatePluginSettingVersion :: "int \<Rightarrow> string \<Rightarrow> string \<Rightarrow> 'w \<Rightarrow> error option \<times> 'w"
  GetDashboardsByPluginID :: "string \<Rightarrow> int \<Rightarrow> 'w \<Rightarrow> (error + Dashboard list) \<times> 'w"

text \<open>
  The \<^verbatim>\<open>context.Context\<close> the updater hands to every method is not modelled: what a method
  does with it is part of what the method returns.

  Every call that leaves the updater is recorded, with its arguments and the error it
  returned, in the order the calls are made. The logger is the list of its entries, each
  with its level and message; the key/value pairs of an entry are left out.
\<close>

datatype call =
    CallGetPluginSettings int
  | CallPlugin string
  | CallListPluginDashboards int string
  | CallLoadPluginDashboard string string
  | CallImportDashboard ImportDashboardRequest
  | CallDeleteDashboard int int
  | CallGetPluginSettingById string int
  | CallUpdatePluginSettingVersion int string string
  | CallGetDashboardsByPluginID string int

datatype level = Debug | Info | Err

record 'w state =
  world :: 'w
  calls :: "(call \<times> error option) list"
  logs :: "(level \<times> string) list"

definition logger :: "level \<Rightarrow> string \<Rightarrow> 'w state \<Rightarrow> 'w state" where
  "logger l msg s = s\<lparr>logs := logs s @ [(l, msg)]\<rparr>"

definition sum_err :: "error + 'a \<Rightarrow> error option" where
  "sum_err r = (case r of Inl e \<Rightarrow> Some e | Inr _ \<Rightarrow> None)"

definition invoke ::
  "call \<Rightarrow> ('r \<Rightarrow> error option) \<Rightarrow> ('w \<Rightarrow> 'r \<times> 'w) \<Rightarrow> 'w state \<Rightarrow> 'r \<times> 'w state" where
  "invoke c err_of f s =
     (case f (world s) of
        (r, w) \<Rightarrow> (r, s\<lparr>world := w, calls := calls s @ [(c, err_of r)]\<rparr>))"

section \<open>The updater\<close>

text \<open>\<^verbatim>\<open>autoUpdateAppDashboard\<close>: load the bundled dashboard, then import it.\<close>

definition autoUpdateAppDashboard ::
  "'w Services \<Rightarrow> PluginDashboard \<Rightarrow> int \<Rightarrow> 'w state \<Rightarrow> error option \<times> 'w state" where
  "autoUpdateAppDashboard sv pluginDashInfo orgID s =
     (case invoke (CallLoadPluginDashboard (pd_PluginId pluginDashInfo) (pd_Reference pluginDashInfo))
             sum_err
             (LoadPluginDashboard sv (pd_PluginId pluginDashInfo) (pd_Reference pluginDashInfo)) s of
        (Inl err, s1) \<Rightarrow> (Some err, s1)
      | (Inr resp, s1) \<Rightarrow>
          (let s2 = logger Info ''Auto updating App dashboard'' s1;
               req = \<lparr>req_PluginId = pd_PluginId pluginDashInfo,
                      req_User = \<lparr>su_UserId = 0, su_OrgRole = ROLE_ADMIN, su_OrgId = orgID\<rparr>,
                      req_Path = pd_Reference pluginDashInfo,
                      req_FolderId = 0,
                      req_Dashboard = ld_Data resp,
                      req_Overwrite = True,
                      req_Inputs = []\<rparr>
           in invoke (CallImportDashboard req) id (ImportDashboard sv req) s2))"

text \<open>
  The body of the loop over \<^verbatim>\<open>resp.Items\<close> in \<^verbatim>\<open>syncPluginDashboards\<close>, for one
  record: the error it gives is the one that makes the loop log and return.
\<close>

definition syncDashboard ::
  "'w Services \<Rightarrow> PluginDTO \<Rightarrow> int \<Rightarrow> PluginDashboard \<Rightarrow> 'w state \<Rightarrow> error option \<times> 'w state" where
  "syncDashboard sv plugin orgID dash s =
     (if pd_Removed dash then
        invoke (CallDeleteDashboard (pd_DashboardId dash) orgID) id
          (DeleteDashboard sv (pd_DashboardId dash) orgID)
          (logger Info ''Deleting plugin dashboard'' s)
      else if pd_ImportedRevision dash \<noteq> pd_Revision dash then
        autoUpdateAppDashboard sv dash orgID s
      else (None, s))"

text \<open>
  The loop itself: \<open>True\<close> when every record was handled, \<open>False\<close> when the loop
  returned from \<^verbatim>\<open>syncPluginDashboards\<close> at the first error.
\<close>

fun syncPluginDashboards_loop ::
  "'w Services \<Rightarrow> PluginDTO \<Rightarrow> int \<Rightarrow> PluginDashboard list \<Rightarrow> 'w state \<Rightarrow> bool \<times> 'w state" where
  "syncPluginDashboards_loop sv plugin orgID [] s = (True, s)"
| "syncPluginDashboards_loop sv plugin orgID (dash # rest) s =
     (case syncDashboard sv plugin orgID dash s of
        (Some err, s1) \<Rightarrow> (False, logger Err ''Failed to auto update app dashboard'' s1)
      | (None, s1) \<Rightarrow> syncPluginDashboards_loop sv plugin orgID rest s1)"

definition syncPluginDashboards ::
  "'w Services \<Rightarrow> PluginDTO \<Rightarrow> int \<Rightarrow> 'w state \<Rightarrow> 'w state" where
  "syncPluginDashboards sv plugin orgID s =
     (case invoke (CallListPluginDashboards orgID (dto_ID plugin)) sum_err
             (ListPluginDashboards sv orgID (dto_ID plugin))
             (logger Info ''Syncing plugin dashboards to DB'' s) of
        (Inl err, s1) \<Rightarrow> logger Err ''Failed to load app dashboards'' s1
      | (Inr items, s1) \<Rightarrow>
          (case syncPluginDashboards_loop sv plugin orgID items s1 of
             (False, s2) \<Rightarrow> s2
           | (True, s2) \<Rightarrow>
               (case invoke (CallGetPluginSettingById (dto_ID plugin) orgID) sum_err
                       (GetPluginSettingById sv (dto_ID plugin) orgID) s2 of
                  (Inl err, s3) \<Rightarrow> logger Err ''Failed to read plugin setting by ID'' s3
                | (Inr appSetting, s3) \<Rightarrow>
                    (case invoke (CallUpdatePluginSettingVersion (ps_OrgId appSetting)
                                    (ps_PluginId appSetting) (dto_Info_Version plugin)) id
                            (UpdatePluginSettingVersion sv (ps_OrgId appSetting)
                               (ps_PluginId appSetting) (dto_Info_Version plugin)) s3 of
                       (Some err, s4) \<Rightarrow> logger Err ''Failed to update plugin setting version'' s4
                     | (None, s4) \<Rightarrow> s4))))"

text \<open>The loop over \<^verbatim>\<open>query.Result\<close> in the disabled branch of the handler.\<close>

fun handlePluginStateChanged_loop ::
  "'w Services \<Rightarrow> Dashboard list \<Rightarrow> 'w state \<Rightarrow> error option \<times> 'w state" where
  "handlePluginStateChanged_loop sv [] s = (None, s)"
| "handlePluginStateChanged_loop sv (dash # rest) s =
     (case invoke (CallDeleteDashboard (db_Id dash) (db_OrgId dash)) id
             (DeleteDashboard sv (db_Id dash) (db_OrgId dash))
             (logger Info ''Deleting plugin dashboard'' s) of
        (Some err, s1) \<Rightarrow> (Some err, s1)
      | (None, s1) \<Rightarrow> handlePluginStateChanged_loop sv rest s1)"

definition handlePluginStateChanged ::
  "'w Services \<Rightarrow> PluginStateChangedEvent \<Rightarrow> 'w state \<Rightarrow> error option \<times> 'w state" where
  "handlePluginStateChanged sv event s =
     (let s0 = logger Info ''Plugin state changed'' s in
      if ev_Enabled event then
        (case invoke (CallPlugin (ev_PluginId event)) (\<lambda>_. None)
                (Plugin sv (ev_PluginId event)) s0 of
           (None, s1) \<Rightarrow>
             (Some (Error (''plugin '' @ ev_PluginId event
                             @ '' not found. Could not sync plugin dashboards'')), s1)
         | (Some p, s1) \<Rightarrow> (None, syncPluginDashboards sv p (ev_OrgId event) s1))
      else
        (case invoke (CallGetDashboardsByPluginID (ev_PluginId event) (ev_OrgId event)) sum_err
                (GetDashboardsByPluginID sv (ev_PluginId event) (ev_OrgId event)) s0 of
           (Inl err, s1) \<Rightarrow> (Some err, s1)
         | (Inr result, s1) \<Rightarrow> handlePluginStateChanged_loop sv result s1))"

text \<open>The loop over the plugin settings in \<^verbatim>\<open>updateAppDashboards\<close>.\<close>

fun updateAppDashboards_loop ::
  "'w Services \<Rightarrow> PluginSetting list \<Rightarrow> 'w state \<Rightarrow> 'w state" where
  "updateAppDashboards_loop sv [] s = s"
| "updateAppDashboards_loop sv (pluginSetting # rest) s =
     (if \<not> ps_Enabled pluginSetting then updateAppDashboards_loop sv rest s
      else
        (case invoke (CallPlugin (ps_PluginId pluginSetting)) (\<lambda>_. None)
                (Plugin sv (ps_PluginId pluginSetting)) s of
           (Some pluginDef, s1) \<Rightarrow>
             (if dto_Info_Version pluginDef \<noteq> ps_PluginVersion pluginSetting then
                updateAppDashboards_loop sv rest
                  (syncPluginDashboards sv pluginDef (ps_OrgId pluginSetting) s1)
              else updateAppDashboards_loop sv rest s1)
         | (None, s1) \<Rightarrow> updateAppDashboards_loop sv rest s1))"

definition updateAppDashboards :: "'w Services \<Rightarrow> 'w state \<Rightarrow> 'w state" where
  "updateAppDashboards sv s =
     (case invoke (CallGetPluginSettings 0) sum_err (GetPluginSettings sv 0)
             (logger Debug ''Looking for app dashboard updates'' s) of
        (Inl err, s1) \<Rightarrow> logger Err ''Failed to get all plugin settings'' s1
      | (Inr pluginSettings, s1) \<Rightarrow> updateAppDashboards_loop sv pluginSettings s1)"

section \<open>What the recorded calls say\<close>

text \<open>
  \<open>perform\<close> is the effect on the world of the service method a recorded call names;
  \<open>replay\<close> runs a sequence of calls. A run of the updater from \<open>s\<close> to \<open>s'\<close>
  \<open>extends\<close> the record by \<open>evs\<close> when \<open>evs\<close> are the calls it added and the world of
  \<open>s'\<close> is the world of \<open>s\<close> after exactly these calls: the updater changes the world
  through its services only.
\<close>

fun perform :: "'w Services \<Rightarrow> call \<Rightarrow> 'w \<Rightarrow> 'w" where
  "perform sv (CallGetPluginSettings org) w = snd (GetPluginSettings sv org w)"
| "perform sv (CallPlugin pid) w = snd (Plugin sv pid w)"
| "perform sv (CallListPluginDashboards org pid) w = snd (ListPluginDashboards sv org pid w)"
| "perform sv (CallLoadPluginDashboard pid ref) w = snd (LoadPluginDashboard sv pid ref w)"
| "perform sv (CallImportDashboard req) w = snd (ImportDashboard sv req w)"
| "perform sv (CallDeleteDashboard did org) w = snd (DeleteDashboard sv did org w)"
| "perform sv (CallGetPluginSettingById pid org) w = snd (GetPluginSettingById sv pid org w)"
| "perform sv (CallUpdatePluginSettingVersion org pid v) w =
     snd (UpdatePluginSettingVersion sv org pid v w)"
| "perform sv (CallGetDashboardsByPluginID pid org) w = snd (GetDashboardsByPluginID sv pid org w)"

definition replay :: "'w Services \<Rightarrow> call list \<Rightarrow> 'w \<Rightarrow> 'w" where
  "replay sv cs w = foldl (\<lambda>w c. perform sv c w) w cs"

definition extends ::
  "'w Services \<Rightarrow> 'w state \<Rightarrow> 'w state \<Rightarrow> (call \<times> error option) list \<Rightarrow> bool" where
  "extends sv s s' evs \<longleftrightarrow>
     calls s' = calls s @ evs \<and> world s' = replay sv (map fst evs) (world s)"

text \<open>The calls of step 2 of a sync pass, and those of its step 3.\<close>

definition step2_call :: "call \<Rightarrow> bool" where
  "step2_call c =
     (case c of
        CallDeleteDashboard _ _ \<Rightarrow> True
      | CallLoadPluginDashboard _ _ \<Rightarrow> True
      | CallImportDashboard _ \<Rightarrow> True
      | _ \<Rightarrow> False)"

definition step3_call :: "call \<Rightarrow> bool" where
  "step3_call c =
     (case c of
        CallGetPluginSettingById _ _ \<Rightarrow> True
      | CallUpdatePluginSettingVersion _ _ _ \<Rightarrow> True
      | _ \<Rightarrow> False)"

definition all_ok :: "(call \<times> error option) list \<Rightarrow> bool" where
  "all_ok evs = list_all (\<lambda>x. snd x = None) evs"

definition admin_import :: "int \<Rightarrow> ImportDashboardRequest \<Rightarrow> bool" where
  "admin_import orgID req \<longleftrightarrow>
     req_User req = \<lparr>su_UserId = 0, su_OrgRole = ROLE_ADMIN, su_OrgId = orgID\<rparr> \<and>
     req_FolderId req = 0 \<and> req_Overwrite req \<and> req_Inputs req = []"

text \<open>
  The calls one record of the catalog gives rise to, by its flags, and the outcome \<open>r\<close>
  of handling it.
\<close>

definition record_calls ::
  "int \<Rightarrow> PluginDashboard \<Rightarrow> error option \<Rightarrow> (call \<times> error option) list \<Rightarrow> bool" where
  "record_calls orgID dash r evs \<longleftrightarrow>
     (if pd_Removed dash then evs = [(CallDeleteDashboard (pd_DashboardId dash) orgID, r)]
      else if pd_ImportedRevision dash \<noteq> pd_Revision dash then
        (r \<noteq> None \<and> evs = [(CallLoadPluginDashboard (pd_PluginId dash) (pd_Reference dash), r)]) \<or>
        (\<exists>req. evs = [(CallLoadPluginDashboard (pd_PluginId dash) (pd_Reference dash), None),
                     (CallImportDashboard req, r)] \<and>
               req_PluginId req = pd_PluginId dash \<and> req_Path req = pd_Reference dash \<and>
               admin_import orgID req)
      else r = None \<and> evs = [])"

text \<open>
  The calls of the loop over the records: calls of step 2 only, none failed but possibly
  the last one, and the loop completed (\<open>ok\<close>) exactly when none failed.
\<close>

definition loop_events :: "int \<Rightarrow> bool \<Rightarrow> (call \<times> error option) list \<Rightarrow> bool" where
  "loop_events orgID ok evs \<longleftrightarrow>
     list_all (\<lambda>x. step2_call (fst x)) evs \<and> all_ok (butlast evs) \<and>
     (ok \<longrightarrow> all_ok evs) \<and> (\<not> ok \<longrightarrow> evs \<noteq> [] \<and> snd (last evs) \<noteq> None) \<and>
     (\<forall>req r. (CallImportDashboard req, r) \<in> set evs \<longrightarrow> admin_import orgID req)"

definition step3_events :: "PluginDTO \<Rightarrow> int \<Rightarrow> (call \<times> error option) list \<Rightarrow> bool" where
  "step3_events plugin orgID fin \<longleftrightarrow>
     (\<exists>e. fin = [(CallGetPluginSettingById (dto_ID plugin) orgID, Some e)]) \<or>
     (\<exists>org pid r. fin = [(CallGetPluginSettingById (dto_ID plugin) orgID, None),
                       (CallUpdatePluginSettingVersion org pid (dto_Info_Version plugin), r)])"

text \<open>The calls of a whole pass: the catalog query, the loop, then step 3.\<close>

definition pass_events :: "PluginDTO \<Rightarrow> int \<Rightarrow> (call \<times> error option) list \<Rightarrow> bool" where
  "pass_events plugin orgID evs \<longleftrightarrow>
     (\<exists>r0 lev fin ok.
        evs = (CallListPluginDashboards orgID (dto_ID plugin), r0) # lev @ fin \<and>
        loop_events orgID ok lev \<and>
        (r0 \<noteq> None \<longrightarrow> lev = [] \<and> fin = []) \<and>
        (r0 = None \<and> ok \<longrightarrow> step3_events plugin orgID fin) \<and>
        (r0 = None \<and> \<not> ok \<longrightarrow> fin = []))"

definition logged_error :: "'w state \<Rightarrow> bool" where
  "logged_error s \<longleftrightarrow> logs s \<noteq> [] \<and> fst (last (logs s)) = Err"

text \<open>
  The calls of the loop of the disabled branch over the stored dashboards \<open>ds\<close>: \<open>k\<close>
  deletions that succeeded, in the order of \<open>ds\<close>, then the one that failed, if any.
\<close>

definition delete_call :: "Dashboard \<Rightarrow> call" where
  "delete_call d = CallDeleteDashboard (db_Id d) (db_OrgId d)"

definition teardown_events ::
  "Dashboard list \<Rightarrow> nat \<Rightarrow> error option \<Rightarrow> (call \<times> error option) list" where
  "teardown_events ds k r =
     map (\<lambda>d. (delete_call d, None)) (take k ds) @
     (case r of None \<Rightarrow> [] | Some e \<Rightarrow> [(delete_call (ds ! k), Some e)])"

text \<open>The first error among recorded calls.\<close>

definition first_error :: "(call \<times> error option) list \<Rightarrow> error option" where
  "first_error evs = (case filter (\<lambda>x. snd x \<noteq> None) evs of [] \<Rightarrow> None | x # _ \<Rightarrow> snd x)"

text \<open>
  The condition under which the startup sweep starts a pass for a settings row, read in
  the world \<open>w\<close> in which the row is reached; and the state once the registry has been
  asked for a plugin.
\<close>

definition sync_due :: "'w Services \<Rightarrow> PluginSetting \<Rightarrow> 'w \<Rightarrow> bool" where
  "sync_due sv ps w \<longleftrightarrow>
     ps_Enabled ps \<and>
     (case fst (Plugin sv (ps_PluginId ps) w) of
        None \<Rightarrow> False
      | Some pluginDef \<Rightarrow> dto_Info_Version pluginDef \<noteq> ps_PluginVersion ps)"

definition looked_up :: "'w Services \<Rightarrow> string \<Rightarrow> 'w state \<Rightarrow> 'w state" where
  "looked_up sv pid s =
     s\<lparr>world := snd (Plugin sv pid (world s)), calls := calls s @ [(CallPlugin pid, None)]\<rparr>"

section \<open>A fake of the services\<close>

text \<open>
  To run the updater on concrete inputs, the services are replaced by a fake whose
  results are scripted: the catalog lists \<open>items\<close>, the dashboard store holds \<open>stored\<close>
  for the plugin, a deletion fails for the identifiers in \<open>failing\<close>, and the setting is
  found when \<open>found\<close> holds. The registry knows the one plugin \<open>app\<close>, at version 2.0.0.
  The world of the fake counts the mutations that succeeded.
\<close>

definition fakeServices ::
  "PluginDashboard list \<Rightarrow> Dashboard list \<Rightarrow> int list \<Rightarrow> bool \<Rightarrow> nat Services" where
  "fakeServices items stored failing found =
     \<lparr>GetPluginSettings = (\<lambda>org w. (Inr [], w)),
      Plugin = (\<lambda>pid w.
        (if pid = ''app'' then Some \<lparr>dto_ID = ''app'', dto_Info_Version = ''2.0.0''\<rparr> else None, w)),
      ListPluginDashboards = (\<lambda>org pid w. (Inr items, w)),
      LoadPluginDashboard = (\<lambda>pid ref w. (Inr \<lparr>ld_Title = ref, ld_Data = ''{}''\<rparr>, w)),
      ImportDashboard = (\<lambda>req w. (None, Suc w)),
      DeleteDashboard = (\<lambda>did org w.
        if did \<in> set failing then (Some (Error ''delete failed''), w) else (None, Suc w)),
      GetPluginSettingById = (\<lambda>pid org w.
        if found
        then (Inr \<lparr>ps_OrgId = org, ps_PluginId = pid, ps_Enabled = True,
                   ps_PluginVersion = ''1.0.0''\<rparr>, w)
        else (Inl (Error ''plugin setting not found''), w)),
      UpdatePluginSettingVersion = (\<lambda>org pid v w. (None, Suc w)),
      GetDashboardsByPluginID = (\<lambda>pid org w. (Inr stored, w))\<rparr>"

definition app :: PluginDTO where
  "app = \<lparr>dto_ID = ''app'', dto_Info_Version = ''2.0.0''\<rparr>"

definition removedDash :: PluginDashboard where
  "removedDash = \<lparr>pd_PluginId = ''app'', pd_DashboardId = 13, pd_Slug = ''old'',
                  pd_Reference = ''dashboards/old.json'', pd_Revision = 2,
                  pd_ImportedRevision = 1, pd_Removed = True\<rparr>"

definition changedDash :: PluginDashboard where
  "changedDash = \<lparr>pd_PluginId = ''app'', pd_DashboardId = 14, pd_Slug = ''cpu'',
                  pd_Reference = ''dashboards/cpu.json'', pd_Revision = 3,
                  pd_ImportedRevision = 2, pd_Removed = False\<rparr>"

definition start :: "nat state" where
  "start = \<lparr>world = 0, calls = [], logs = []\<rparr>"

definition cpuImport :: ImportDashboardRequest where
  "cpuImport = \<lparr>req_PluginId = ''app'',
                 req_User = \<lparr>su_UserId = 0, su_OrgRole = ROLE_ADMIN, su_OrgId = 1\<rparr>,
                 req_Path = ''dashboards/cpu.json'', req_FolderId = 0, req_Dashboard = ''{}'',
                 req_Overwrite = True, req_Inputs = []\<rparr>"

definition storedDashboards :: "Dashboard list" where
  "storedDashboards = [\<lparr>db_Id = 21, db_OrgId = 1, db_Slug = ''cpu''\<rparr>,
                       \<lparr>db_Id = 22, db_OrgId = 1, db_Slug = ''mem''\<rparr>,
                       \<lparr>db_Id = 23, db_OrgId = 1, db_Slug = ''net''\<rparr>]"

definition settingsRow :: "string \<Rightarrow> string \<Rightarrow> PluginSetting" where
  "settingsRow pid version =
     \<lparr>ps_OrgId = 1, ps_PluginId = pid, ps_Enabled = True, ps_PluginVersion = version\<rparr>"

definition enableApp :: PluginStateChangedEvent where
  "enableApp = \<lparr>ev_PluginId = ''app'', ev_OrgId = 1, ev_Enabled = True\<rparr>"

section \<open>The stores behind the services\<close>

text \<open>
  The implementations of the services are not part of the updater. What follows models
  them from the specification, to state what two passes in a row do to the stores. The
  stores are taken to be available: the transient failures of the specification
  (\<^verbatim>\<open>StoreUnavailable\<close>, \<^verbatim>\<open>CatalogUnavailable\<close>) are left out.
\<close>

text \<open>
  Modelled from the spec: the stored dashboard of the Dashboard Store (section 3), which
  is missing from the sources. It has its identifier, its organisation and its payload;
  it is attributed to a plugin (section 4.3) at a reference within the plugin, and it
  keeps the revision that was last imported (the imported-revision of section 3).
\<close>

record StoredDashboard =
  sd_Id :: int
  sd_OrgId :: int
  sd_PluginId :: string
  sd_Reference :: string
  sd_Revision :: int
  sd_Data :: json

text \<open>
  Modelled from the spec: the state of the four external components of section 2, which
  is missing from the sources. The Plugin Registry maps a plugin identifier to its
  descriptor; the Plugin Dashboard Catalog knows, for a plugin, its bundled dashboards
  (reference, revision, payload); the Dashboard Store holds the stored dashboards and
  hands out identifiers; the Settings Store holds one row per organisation and plugin.
\<close>

record Stores =
  registry :: "(string \<times> PluginDTO) list"
  bundled :: "string \<Rightarrow> (string \<times> int \<times> json) list"
  dashboards :: "StoredDashboard list"
  next_id :: int
  settings :: "PluginSetting list"

definition stored_at :: "int \<Rightarrow> string \<Rightarrow> string \<Rightarrow> StoredDashboard \<Rightarrow> bool" where
  "stored_at org pid ref d \<longleftrightarrow> sd_OrgId d = org \<and> sd_PluginId d = pid \<and> sd_Reference d = ref"

text \<open>
  Modelled from the spec: the record the catalog computes for a bundled dashboard
  (section 3), missing from the sources. It is recomputed from the stores on every
  query: the imported-revision is the revision last imported into storage, and the
  stored identifier is 0 when the dashboard was never imported.
\<close>

definition bundledRecord :: "Stores \<Rightarrow> int \<Rightarrow> string \<Rightarrow> string \<times> int \<times> json \<Rightarrow> PluginDashboard" where
  "bundledRecord w org pid b =
     (case b of (ref, revision, data) \<Rightarrow>
        (case find (stored_at org pid ref) (dashboards w) of
           None \<Rightarrow> \<lparr>pd_PluginId = pid, pd_DashboardId = 0, pd_Slug = ref, pd_Reference = ref,
                     pd_Revision = revision, pd_ImportedRevision = 0, pd_Removed = False\<rparr>
         | Some d \<Rightarrow> \<lparr>pd_PluginId = pid, pd_DashboardId = sd_Id d, pd_Slug = ref, pd_Reference = ref,
                       pd_Revision = revision, pd_ImportedRevision = sd_Revision d, pd_Removed = False\<rparr>))"

text \<open>
  Modelled from the spec: the deletion status of section 2, missing from the sources. A
  dashboard removed from a plugin (section 1) is a stored dashboard of the plugin whose
  reference the plugin no longer bundles; the catalog lists it with the removed flag.
\<close>

definition orphan :: "Stores \<Rightarrow> int \<Rightarrow> string \<Rightarrow> StoredDashboard \<Rightarrow> bool" where
  "orphan w org pid d \<longleftrightarrow>
     sd_OrgId d = org \<and> sd_PluginId d = pid \<and> sd_Reference d \<notin> set (map fst (bundled w pid))"

definition removedRecord :: "StoredDashboard \<Rightarrow> PluginDashboard" where
  "removedRecord d =
     \<lparr>pd_PluginId = sd_PluginId d, pd_DashboardId = sd_Id d, pd_Slug = sd_Reference d,
      pd_Reference = sd_Reference d, pd_Revision = sd_Revision d,
      pd_ImportedRevision = sd_Revision d, pd_Removed = True\<rparr>"

text \<open>
  Modelled from the spec: \<^verbatim>\<open>ListPluginDashboards\<close> (section 6), missing from the sources:
  the bundled dashboards of the plugin, then the removed ones.
\<close>

definition catalog :: "Stores \<Rightarrow> int \<Rightarrow> string \<Rightarrow> PluginDashboard list" where
  "catalog w org pid =
     map (bundledRecord w org pid) (bundled w pid) @
     map removedRecord (filter (orphan w org pid) (dashboards w))"

text \<open>
  Modelled from the spec: the upsert with overwrite semantics of section 4.2, missing from
  the sources. It replaces any existing dashboard at that reference, and creates one
  with a fresh identifier when there is none.
\<close>

definition upsert :: "int \<Rightarrow> string \<Rightarrow> string \<Rightarrow> int \<Rightarrow> json \<Rightarrow> Stores \<Rightarrow> Stores" where
  "upsert org pid ref revision data w =
     (if list_ex (stored_at org pid ref) (dashboards w) then
        w\<lparr>dashboards :=
             map (\<lambda>d. if stored_at org pid ref d then d\<lparr>sd_Revision := revision, sd_Data := data\<rparr> else d)
               (dashboards w)\<rparr>
      else
        w\<lparr>dashboards := dashboards w @
             [\<lparr>sd_Id = next_id w, sd_OrgId = org, sd_PluginId = pid, sd_Reference = ref,
               sd_Revision = revision, sd_Data = data\<rparr>],
          next_id := next_id w + 1\<rparr>)"

text \<open>
  Modelled from the spec: the consumed interfaces of section 6, missing from the sources.
  The settings are listed for one organisation, or for all when the filter is 0. Loading
  fails with not-found for a reference the plugin does not bundle; an import
  records the plugin's revision of the reference it imports; a deletion fails with
  not-found when no dashboard has the identifier in the organisation; reading and
  writing a setting fail with not-found when the row is absent.
\<close>

definition storeServices :: "Stores Services" where
  "storeServices =
     \<lparr>GetPluginSettings = (\<lambda>org w.
        (Inr (if org = 0 then settings w else filter (\<lambda>p. ps_OrgId p = org) (settings w)), w)),
      Plugin = (\<lambda>pid w. (map_of (registry w) pid, w)),
      ListPluginDashboards = (\<lambda>org pid w. (Inr (catalog w org pid), w)),
      LoadPluginDashboard = (\<lambda>pid ref w.
        (case map_of (bundled w pid) ref of
           None \<Rightarrow> Inl (Error ''plugin dashboard not found'')
         | Some (revision, data) \<Rightarrow> Inr \<lparr>ld_Title = ref, ld_Data = data\<rparr>, w)),
      ImportDashboard = (\<lambda>req w.
        (case map_of (bundled w (req_PluginId req)) (req_Path req) of
           None \<Rightarrow> (Some (Error ''invalid dashboard''), w)
         | Some (revision, data) \<Rightarrow>
             (None, upsert (su_OrgId (req_User req)) (req_PluginId req) (req_Path req) revision
                      (req_Dashboard req) w))),
      DeleteDashboard = (\<lambda>did org w.
        if list_ex (\<lambda>d. sd_Id d = did \<and> sd_OrgId d = org) (dashboards w)
        then (None, w\<lparr>dashboards := filter (\<lambda>d. \<not> (sd_Id d = did \<and> sd_OrgId d = org)) (dashboards w)\<rparr>)
        else (Some (Error ''dashboard not found''), w)),
      GetPluginSettingById = (\<lambda>pid org w.
        (case find (\<lambda>p. ps_PluginId p = pid \<and> ps_OrgId p = org) (settings w) of
           None \<Rightarrow> Inl (Error ''plugin setting not found'')
         | Some p \<Rightarrow> Inr p, w)),
      UpdatePluginSettingVersion = (\<lambda>org pid v w.
        if list_ex (\<lambda>p. ps_PluginId p = pid \<and> ps_OrgId p = org) (settings w)
        then (None, w\<lparr>settings :=
                map (\<lambda>p. if ps_PluginId p = pid \<and> ps_OrgId p = org then p\<lparr>ps_PluginVersion := v\<rparr> else p)
                  (settings w)\<rparr>)
        else (Some (Error ''plugin setting not found''), w)),
      GetDashboardsByPluginID = (\<lambda>pid org w.
        (Inr (map (\<lambda>d. \<lparr>db_Id = sd_Id d, db_OrgId = sd_OrgId d, db_Slug = sd_Reference d\<rparr>)
                (filter (\<lambda>d. sd_OrgId d = org \<and> sd_PluginId d = pid) (dashboards w))), w))\<rparr>"

text \<open>
  Modelled from the spec: what the stores guarantee about their keys, missing from the
  sources. A dashboard identifier names one stored dashboard and is below the next
  identifier to hand out; a reference names one bundled dashboard of the plugin.
\<close>

definition store_wf :: "Stores \<Rightarrow> string \<Rightarrow> bool" where
  "store_wf w pid \<longleftrightarrow>
     distinct (map sd_Id (dashboards w)) \<and>
     list_all (\<lambda>d. sd_Id d < next_id w) (dashboards w) \<and>
     distinct (map fst (bundled w pid))"

text \<open>
  The world once step 3 of a pass has written the plugin's version, and the catalog of a
  world in which nothing is left to do.
\<close>

definition version_written :: "PluginDTO \<Rightarrow> int \<Rightarrow> Stores \<Rightarrow> Stores" where
  "version_written plugin org w =
     (if list_ex (\<lambda>p. ps_PluginId p = dto_ID plugin \<and> ps_OrgId p = org) (settings w)
      then w\<lparr>settings :=
             map (\<lambda>p. if ps_PluginId p = dto_ID plugin \<and> ps_OrgId p = org
                       then p\<lparr>ps_PluginVersion := dto_Info_Version plugin\<rparr> else p)
               (settings w)\<rparr>
      else w)"

definition converged :: "Stores \<Rightarrow> int \<Rightarrow> string \<Rightarrow> bool" where
  "converged w org pid \<longleftrightarrow>
     list_all (\<lambda>d. \<not> pd_Removed d \<and> pd_ImportedRevision d = pd_Revision d) (catalog w org pid)"

definition exampleStores :: Stores where
  "exampleStores =
     \<lparr>registry = [(''app'', app)],
      bundled = (\<lambda>pid. if pid = ''app''
                        then [(''dashboards/cpu.json'', 3, ''{cpu v3}''),
                              (''dashboards/mem.json'', 1, ''{mem v1}'')]
                        else []),
      dashboards = [\<lparr>sd_Id = 13, sd_OrgId = 1, sd_PluginId = ''app'',
                      sd_Reference = ''dashboards/old.json'', sd_Revision = 1, sd_Data = ''{old v1}''\<rparr>,
                    \<lparr>sd_Id = 14, sd_OrgId = 1, sd_PluginId = ''app'',
                      sd_Reference = ''dashboards/cpu.json'', sd_Revision = 2, sd_Data = ''{cpu v2}''\<rparr>],
      next_id = 15,
      settings = [\<lparr>ps_OrgId = 1, ps_PluginId = ''app'', ps_Enabled = True, ps_PluginVersion = ''1.0.0''\<rparr>]\<rparr>"

definition storeStart :: "Stores state" where
  "storeStart = \<lparr>world = exampleStores, calls = [], logs = []\<rparr>"

section \<open>The calls a run makes\<close>

lemma extends_refl: "extends sv s s []"
  by (simp add: extends_def replay_def)

lemma extends_logger: "extends sv s s' evs \<Longrightarrow> extends sv s (logger l m s') evs"
  by (simp add: extends_def logger_def)

lemma extends_logger_pre: "extends sv (logger l m s) s' evs \<Longrightarrow> extends sv s s' evs"
  by (simp add: extends_def logger_def)

lemma extends_trans:
  "extends sv s s1 e1 \<Longrightarrow> extends sv s1 s2 e2 \<Longrightarrow> extends sv s s2 (e1 @ e2)"
  by (simp add: extends_def replay_def)

lemma extends_invoke:
  assumes "invoke c eo f s = (r, s')" and "\<And>w. snd (f w) = perform sv c w"
  shows "extends sv s s' [(c, eo r)]"
proof -
  obtain w where fw: "f (world s) = (r, w)"
    and s': "s' = s\<lparr>world := w, calls := calls s @ [(c, eo r)]\<rparr>"
    using assms(1) by (auto simp: invoke_def split: prod.splits)
  have "w = perform sv c (world s)"
    using assms(2)[of "world s"] fw by simp
  with fw s' show ?thesis
    by (simp add: extends_def replay_def)
qed

lemma invoke_result: "invoke c eo f s = (r, s') \<Longrightarrow> r = fst (f (world s))"
  by (auto simp: invoke_def split: prod.splits)

lemma logged_error_logger: "logged_error (logger Err m s)"
  by (simp add: logged_error_def logger_def)

lemma autoUpdate_calls:
  assumes "autoUpdateAppDashboard sv dash orgID s = (r, s')"
  shows "\<exists>evs. extends sv s s' evs \<and>
     ((r \<noteq> None \<and> evs = [(CallLoadPluginDashboard (pd_PluginId dash) (pd_Reference dash), r)]) \<or>
        (\<exists>req. evs = [(CallLoadPluginDashboard (pd_PluginId dash) (pd_Reference dash), None),
                     (CallImportDashboard req, r)] \<and>
               req_PluginId req = pd_PluginId dash \<and> req_Path req = pd_Reference dash \<and>
               admin_import orgID req))"
proof -
  obtain r1 s1 where l: "invoke (CallLoadPluginDashboard (pd_PluginId dash) (pd_Reference dash))
             sum_err (LoadPluginDashboard sv (pd_PluginId dash) (pd_Reference dash)) s = (r1, s1)"
    by (cases "invoke (CallLoadPluginDashboard (pd_PluginId dash) (pd_Reference dash))
             sum_err (LoadPluginDashboard sv (pd_PluginId dash) (pd_Reference dash)) s") auto
  have e1: "extends sv s s1 [(CallLoadPluginDashboard (pd_PluginId dash) (pd_Reference dash), sum_err r1)]"
    using extends_invoke[OF l, of sv] by simp
  show ?thesis
  proof (cases r1)
    case (Inl err)
    with assms l have "r = Some err" "s' = s1"
      by (auto simp: autoUpdateAppDashboard_def)
    with e1 Inl show ?thesis by (auto simp: sum_err_def)
  next
    case (Inr resp)
    define req where "req = \<lparr>req_PluginId = pd_PluginId dash,
                      req_User = \<lparr>su_UserId = 0, su_OrgRole = ROLE_ADMIN, su_OrgId = orgID\<rparr>,
                      req_Path = pd_Reference dash,
                      req_FolderId = 0,
                      req_Dashboard = ld_Data resp,
                      req_Overwrite = True,
                      req_Inputs = []\<rparr>"
    from assms l Inr have i: "invoke (CallImportDashboard req) id (ImportDashboard sv req)
        (logger Info ''Auto updating App dashboard'' s1) = (r, s')"
      by (simp add: autoUpdateAppDashboard_def req_def Let_def)
    have "extends sv (logger Info ''Auto updating App dashboard'' s1) s' [(CallImportDashboard req, r)]"
      using extends_invoke[OF i, of sv] by simp
    then have "extends sv s1 s' [(CallImportDashboard req, r)]"
      by (simp add: extends_def logger_def)
    with e1 have "extends sv s s' ([(CallLoadPluginDashboard (pd_PluginId dash) (pd_Reference dash), sum_err r1)] @ [(CallImportDashboard req, r)])"
      by (rule extends_trans)
    moreover have "admin_import orgID req" "req_PluginId req = pd_PluginId dash" "req_Path req = pd_Reference dash"
      by (simp_all add: admin_import_def req_def)
    ultimately show ?thesis using Inr by (auto simp: sum_err_def)
  qed
qed

lemma syncDashboard_calls:
  assumes "syncDashboard sv plugin orgID dash s = (r, s')"
  shows "\<exists>evs. extends sv s s' evs \<and> record_calls orgID dash r evs"
proof (cases "pd_Removed dash")
  case True
  with assms have i: "invoke (CallDeleteDashboard (pd_DashboardId dash) orgID) id
          (DeleteDashboard sv (pd_DashboardId dash) orgID)
          (logger Info ''Deleting plugin dashboard'' s) = (r, s')"
    by (simp add: syncDashboard_def)
  have "extends sv (logger Info ''Deleting plugin dashboard'' s) s' [(CallDeleteDashboard (pd_DashboardId dash) orgID, r)]"
    using extends_invoke[OF i, of sv] by simp
  then have "extends sv s s' [(CallDeleteDashboard (pd_DashboardId dash) orgID, r)]"
    by (simp add: extends_def logger_def)
  with True show ?thesis by (auto simp: record_calls_def)
next
  case False
  show ?thesis
  proof (cases "pd_ImportedRevision dash \<noteq> pd_Revision dash")
    case True
    with False assms have "autoUpdateAppDashboard sv dash orgID s = (r, s')"
      by (simp add: syncDashboard_def)
    from autoUpdate_calls[OF this] False True show ?thesis
      by (simp add: record_calls_def)
  next
    case eq: False
    with False assms have "r = None" "s' = s" by (auto simp: syncDashboard_def)
    with False eq show ?thesis by (auto simp: record_calls_def extends_refl)
  qed
qed

lemma record_calls_loop_events:
  assumes "record_calls orgID dash r evs"
  shows "loop_events orgID (r = None) evs"
  using assms
  by (auto simp: record_calls_def loop_events_def step2_call_def all_ok_def split: if_splits)

lemma loop_events_append:
  assumes "loop_events orgID True e1" and "loop_events orgID ok e2"
  shows "loop_events orgID ok (e1 @ e2)"
proof (cases "e2 = []")
  case True
  with assms show ?thesis by (auto simp: loop_events_def all_ok_def)
next
  case False
  then have "butlast (e1 @ e2) = e1 @ butlast e2" by (simp add: butlast_append)
  with assms False show ?thesis
    by (auto simp: loop_events_def all_ok_def)
qed

lemma loop_calls:
  "syncPluginDashboards_loop sv plugin orgID items s = (ok, s') \<Longrightarrow>
   \<exists>evs. extends sv s s' evs \<and> loop_events orgID ok evs \<and>
         (\<not> ok \<longrightarrow> logged_error s')"
proof (induction items arbitrary: s)
  case Nil
  then have "ok" "s' = s" by auto
  moreover have "loop_events orgID True []" by (simp add: loop_events_def all_ok_def)
  ultimately show ?case using extends_refl[of sv s] by auto
next
  case (Cons dash rest)
  obtain r s1 where sd: "syncDashboard sv plugin orgID dash s = (r, s1)"
    by (cases "syncDashboard sv plugin orgID dash s") auto
  from syncDashboard_calls[OF sd] obtain e1 where
    e1: "extends sv s s1 e1" and rc: "record_calls orgID dash r e1" by blast
  show ?case
  proof (cases r)
    case None
    with Cons.prems sd have "syncPluginDashboards_loop sv plugin orgID rest s1 = (ok, s')"
      by simp
    from Cons.IH[OF this] obtain e2 where
      e2: "extends sv s1 s' e2" and le: "loop_events orgID ok e2"
      and lg: "\<not> ok \<longrightarrow> logged_error s'" by blast
    from record_calls_loop_events[OF rc] None have "loop_events orgID True e1" by simp
    from loop_events_append[OF this le] extends_trans[OF e1 e2] lg show ?thesis by blast
  next
    case (Some err)
    with Cons.prems sd have ok: "\<not> ok"
      and s': "s' = logger Err ''Failed to auto update app dashboard'' s1"
      by auto
    from record_calls_loop_events[OF rc] Some ok have "loop_events orgID ok e1" by simp
    moreover from e1 s' have "extends sv s s' e1" by (simp add: extends_logger)
    moreover from s' have "logged_error s'"
      by (simp add: logged_error_logger)
    ultimately show ?thesis by blast
  qed
qed

lemma pass_eventsI:
  assumes "loop_events orgID ok lev"
    and "r0 \<noteq> None \<Longrightarrow> lev = [] \<and> fin = []"
    and "r0 = None \<Longrightarrow> ok \<Longrightarrow> step3_events plugin orgID fin"
    and "r0 = None \<Longrightarrow> \<not> ok \<Longrightarrow> fin = []"
  shows "pass_events plugin orgID ((CallListPluginDashboards orgID (dto_ID plugin), r0) # lev @ fin)"
  unfolding pass_events_def using assms by blast

lemma sync_calls_logs:
  "\<exists>evs. extends sv s (syncPluginDashboards sv plugin orgID s) evs \<and> pass_events plugin orgID evs \<and>
         (\<not> all_ok evs \<longrightarrow> logged_error (syncPluginDashboards sv plugin orgID s))"
proof -
  let ?s0 = "logger Info ''Syncing plugin dashboards to DB'' s"
  let ?c0 = "CallListPluginDashboards orgID (dto_ID plugin)"
  obtain r0 s1 where l: "invoke ?c0 sum_err (ListPluginDashboards sv orgID (dto_ID plugin)) ?s0 = (r0, s1)"
    by (cases "invoke ?c0 sum_err (ListPluginDashboards sv orgID (dto_ID plugin)) ?s0") auto
  have "extends sv ?s0 s1 [(?c0, sum_err r0)]"
    using extends_invoke[OF l, of sv] by simp
  then have e0: "extends sv s s1 [(?c0, sum_err r0)]" by (rule extends_logger_pre)
  show ?thesis
  proof (cases r0)
    case (Inl err)
    with l have eq: "syncPluginDashboards sv plugin orgID s = logger Err ''Failed to load app dashboards'' s1"
      by (simp add: syncPluginDashboards_def)
    then have "logged_error (syncPluginDashboards sv plugin orgID s)"
      by (simp add: logged_error_logger)
    moreover from eq e0 have "extends sv s (syncPluginDashboards sv plugin orgID s) ((?c0, sum_err r0) # [] @ [])"
      by (simp add: extends_logger)
    moreover have "pass_events plugin orgID ((?c0, sum_err r0) # [] @ [])"
      by (rule pass_eventsI[where ok = True])
         (use Inl in \<open>simp_all add: sum_err_def loop_events_def all_ok_def\<close>)
    ultimately show ?thesis by blast
  next
    case (Inr items)
    then have r0: "sum_err r0 = None" by (simp add: sum_err_def)
    obtain ok s2 where lp: "syncPluginDashboards_loop sv plugin orgID items s1 = (ok, s2)"
      by (cases "syncPluginDashboards_loop sv plugin orgID items s1") auto
    from loop_calls[OF lp] obtain lev where
      lev: "extends sv s1 s2 lev" and le: "loop_events orgID ok lev"
      and lg: "\<not> ok \<longrightarrow> logged_error s2" by blast
    show ?thesis
    proof (cases ok)
      case False
      with l Inr lp have eq: "syncPluginDashboards sv plugin orgID s = s2"
        by (simp add: syncPluginDashboards_def)
      with lg False have "logged_error (syncPluginDashboards sv plugin orgID s)" by simp
      moreover from eq extends_trans[OF e0 lev] have "extends sv s (syncPluginDashboards sv plugin orgID s) ((?c0, sum_err r0) # lev @ [])"
        by simp
      moreover have "pass_events plugin orgID ((?c0, sum_err r0) # lev @ [])"
        by (rule pass_eventsI[where ok = ok]) (use r0 le False in simp_all)
      ultimately show ?thesis by blast
    next
      case True
      let ?c1 = "CallGetPluginSettingById (dto_ID plugin) orgID"
      obtain r1 s3 where g: "invoke ?c1 sum_err (GetPluginSettingById sv (dto_ID plugin) orgID) s2 = (r1, s3)"
        by (cases "invoke ?c1 sum_err (GetPluginSettingById sv (dto_ID plugin) orgID) s2") auto
      have e1: "extends sv s2 s3 [(?c1, sum_err r1)]"
        using extends_invoke[OF g, of sv] by simp
      show ?thesis
      proof (cases r1)
        case (Inl err)
        with l Inr lp True g have eq: "syncPluginDashboards sv plugin orgID s = logger Err ''Failed to read plugin setting by ID'' s3"
          by (simp add: syncPluginDashboards_def)
        then have "logged_error (syncPluginDashboards sv plugin orgID s)"
          by (simp add: logged_error_logger)
        moreover from eq extends_trans[OF extends_trans[OF e0 lev] e1]
        have "extends sv s (syncPluginDashboards sv plugin orgID s) ((?c0, sum_err r0) # lev @ [(?c1, sum_err r1)])"
          by (simp add: extends_logger)
        moreover have "step3_events plugin orgID [(?c1, sum_err r1)]"
          using Inl by (simp add: step3_events_def sum_err_def)
        then have "pass_events plugin orgID ((?c0, sum_err r0) # lev @ [(?c1, sum_err r1)])"
          by (intro pass_eventsI[where ok = ok]) (use r0 le True in simp_all)
        ultimately show ?thesis by blast
      next
        case (Inr appSetting)
        let ?c2 = "CallUpdatePluginSettingVersion (ps_OrgId appSetting)
                                    (ps_PluginId appSetting) (dto_Info_Version plugin)"
        obtain r2 s4 where u: "invoke ?c2 id (UpdatePluginSettingVersion sv (ps_OrgId appSetting)
                               (ps_PluginId appSetting) (dto_Info_Version plugin)) s3 = (r2, s4)"
          by (cases "invoke ?c2 id (UpdatePluginSettingVersion sv (ps_OrgId appSetting)
                               (ps_PluginId appSetting) (dto_Info_Version plugin)) s3") auto
        have e2: "extends sv s3 s4 [(?c2, r2)]"
          using extends_invoke[OF u, of sv] by simp
        have eq: "syncPluginDashboards sv plugin orgID s =
                (if r2 = None then s4 else logger Err ''Failed to update plugin setting version'' s4)"
          using l \<open>r0 = Inr items\<close> lp True g Inr u
          by (cases r2) (simp_all add: syncPluginDashboards_def)
        have "all_ok lev" using le True by (simp add: loop_events_def)
        then have "\<not> all_ok ((?c0, sum_err r0) # lev @ [(?c1, sum_err r1), (?c2, r2)]) \<longrightarrow>
              logged_error (syncPluginDashboards sv plugin orgID s)"
          using eq r0 Inr by (auto simp: all_ok_def sum_err_def logged_error_logger)
        moreover from eq extends_trans[OF extends_trans[OF extends_trans[OF e0 lev] e1] e2]
        have "extends sv s (syncPluginDashboards sv plugin orgID s) ((?c0, sum_err r0) # lev @ [(?c1, sum_err r1), (?c2, r2)])"
          by (auto simp add: extends_logger)
        moreover have "step3_events plugin orgID [(?c1, sum_err r1), (?c2, r2)]"
          using Inr by (auto simp add: step3_events_def sum_err_def)
        then have "pass_events plugin orgID ((?c0, sum_err r0) # lev @ [(?c1, sum_err r1), (?c2, r2)])"
          by (intro pass_eventsI[where ok = ok]) (use r0 le True in simp_all)
        ultimately show ?thesis by blast
      qed
    qed
  qed
qed



lemma sync_calls:
  "\<exists>evs. extends sv s (syncPluginDashboards sv plugin orgID s) evs \<and> pass_events plugin orgID evs"
  using sync_calls_logs[of sv s plugin orgID] by blast

lemma extends_calls:
  assumes "extends sv s s' evs" and "calls s' = calls s @ evs'"
  shows "evs' = evs"
  using assms by (simp add: extends_def)

lemma pass_events_failed_step3:
  assumes pe: "pass_events plugin orgID (before @ (c, Some e) # after)"
    and c: "step3_call c"
  shows "after = [] \<and> all_ok before \<and>
         (\<forall>org pid v r. (CallUpdatePluginSettingVersion org pid v, r) \<notin> set before)"
proof -
  let ?l = "CallListPluginDashboards orgID (dto_ID plugin)"
  let ?g = "CallGetPluginSettingById (dto_ID plugin) orgID"
  from pe obtain r0 lev fin ok where
    evs: "before @ (c, Some e) # after = (?l, r0) # lev @ fin"
    and le: "loop_events orgID ok lev"
    and r0: "r0 \<noteq> None \<longrightarrow> lev = [] \<and> fin = []"
    and s3: "r0 = None \<and> ok \<longrightarrow> step3_events plugin orgID fin"
    and ab: "r0 = None \<and> \<not> ok \<longrightarrow> fin = []"
    unfolding pass_events_def by blast
  from c have "c \<noteq> ?l" by (auto simp: step3_call_def)
  with evs obtain b' where b': "before = (?l, r0) # b'"
    and rest: "b' @ (c, Some e) # after = lev @ fin"
    by (cases before) auto
  from rest r0 have r0n: "r0 = None" by auto
  have lev2: "\<forall>x\<in>set lev. step2_call (fst x)"
    using le by (simp add: loop_events_def list_all_iff)
  have notlev: "(c, Some e) \<notin> set lev"
    using lev2 c by (auto simp: step2_call_def step3_call_def split: call.splits)
  from rest obtain us where us: "b' = lev @ us" "us @ (c, Some e) # after = fin"
  proof -
    from rest[unfolded append_eq_append_conv2] obtain us where
      "(b' = lev @ us \<and> us @ (c, Some e) # after = fin) \<or> (b' @ us = lev \<and> (c, Some e) # after = us @ fin)"
      by blast
    then show ?thesis
    proof
      assume "b' = lev @ us \<and> us @ (c, Some e) # after = fin"
      then show ?thesis using that by blast
    next
      assume a: "b' @ us = lev \<and> (c, Some e) # after = us @ fin"
      show ?thesis
      proof (cases us)
        case Nil
        with a show ?thesis using that[of "[]"] by simp
      next
        case (Cons u us')
        with a have "(c, Some e) \<in> set lev" by auto
        with notlev show ?thesis by simp
      qed
    qed
  qed
  from us have "fin \<noteq> []" by auto
  with ab r0n have ok by blast
  with s3 r0n have "step3_events plugin orgID fin" by simp
  then consider e' where "fin = [(?g, Some e')]"
    | org pid r where "fin = [(?g, None), (CallUpdatePluginSettingVersion org pid (dto_Info_Version plugin), r)]"
    unfolding step3_events_def by blast
  then have "after = [] \<and> (us = [] \<or> us = [(?g, None)])"
  proof cases
    case 1
    with us(2) show ?thesis by (cases us) auto
  next
    case 2
    with us(2) show ?thesis
      by (cases us; cases "tl us") auto
  qed
  moreover have "all_ok lev" using le \<open>ok\<close> by (simp add: loop_events_def)
  ultimately show ?thesis
    using b' us(1) r0n lev2
    by (auto simp: all_ok_def list_all_iff step2_call_def)
qed

lemma pass_events_import:
  assumes pe: "pass_events plugin orgID evs" and m: "(CallImportDashboard req, r) \<in> set evs"
  shows "admin_import orgID req"
proof -
  from pe obtain r0 lev fin ok where
    evs: "evs = (CallListPluginDashboards orgID (dto_ID plugin), r0) # lev @ fin"
    and le: "loop_events orgID ok lev"
    and r0: "r0 \<noteq> None \<longrightarrow> lev = [] \<and> fin = []"
    and s3: "r0 = None \<and> ok \<longrightarrow> step3_events plugin orgID fin"
    and ab: "r0 = None \<and> \<not> ok \<longrightarrow> fin = []"
    unfolding pass_events_def by blast
  have "(CallImportDashboard req, r) \<notin> set fin"
    using r0 s3 ab by (cases "r0 = None"; cases ok) (auto simp: step3_events_def)
  with m evs have "(CallImportDashboard req, r) \<in> set lev" by auto
  with le show ?thesis unfolding loop_events_def by blast
qed

lemma teardown_loop_calls:
  "handlePluginStateChanged_loop sv ds s = (r, s') \<Longrightarrow>
   \<exists>k. extends sv s s' (teardown_events ds k r) \<and>
       (r = None \<longrightarrow> k = length ds) \<and> (r \<noteq> None \<longrightarrow> k < length ds)"
proof (induction ds arbitrary: s)
  case Nil
  then have "r = None" "s' = s" by auto
  then show ?case using extends_refl[of sv s] by (auto simp: teardown_events_def)
next
  case (Cons d rest)
  let ?c = "CallDeleteDashboard (db_Id d) (db_OrgId d)"
  obtain r1 s1 where i: "invoke ?c id (DeleteDashboard sv (db_Id d) (db_OrgId d))
             (logger Info ''Deleting plugin dashboard'' s) = (r1, s1)"
    by (cases "invoke ?c id (DeleteDashboard sv (db_Id d) (db_OrgId d))
             (logger Info ''Deleting plugin dashboard'' s)") auto
  have "extends sv (logger Info ''Deleting plugin dashboard'' s) s1 [(?c, r1)]"
    using extends_invoke[OF i, of sv] by simp
  then have e1: "extends sv s s1 [(?c, r1)]" by (rule extends_logger_pre)
  show ?case
  proof (cases r1)
    case None
    with Cons.prems i have "handlePluginStateChanged_loop sv rest s1 = (r, s')" by simp
    from Cons.IH[OF this] obtain k where
      e2: "extends sv s1 s' (teardown_events rest k r)"
      and k: "r = None \<longrightarrow> k = length rest" "r \<noteq> None \<longrightarrow> k < length rest" by blast
    have "[(?c, r1)] @ teardown_events rest k r = teardown_events (d # rest) (Suc k) r"
      using None by (simp add: teardown_events_def delete_call_def split: option.splits)
    with extends_trans[OF e1 e2] have "extends sv s s' (teardown_events (d # rest) (Suc k) r)"
      by simp
    with k show ?thesis by (intro exI[of _ "Suc k"]) simp
  next
    case (Some err)
    with Cons.prems i have "r = Some err" "s' = s1" by auto
    moreover have "[(?c, r1)] = teardown_events (d # rest) 0 r1"
      using Some by (simp add: teardown_events_def delete_call_def)
    ultimately show ?thesis using e1 Some by (intro exI[of _ 0]) simp
  qed
qed

lemma sweep_split:
  "updateAppDashboards_loop sv (ps # rest) s =
     updateAppDashboards_loop sv rest (updateAppDashboards_loop sv [ps] s)"
  by (simp split: prod.splits option.splits)

lemma sweep_row:
  "updateAppDashboards_loop sv [ps] s =
     (if \<not> ps_Enabled ps then s
      else case fst (Plugin sv (ps_PluginId ps) (world s)) of
             None \<Rightarrow> looked_up sv (ps_PluginId ps) s
           | Some pluginDef \<Rightarrow>
               if dto_Info_Version pluginDef \<noteq> ps_PluginVersion ps
               then syncPluginDashboards sv pluginDef (ps_OrgId ps) (looked_up sv (ps_PluginId ps) s)
               else looked_up sv (ps_PluginId ps) s)"
  by (auto simp: invoke_def looked_up_def split: prod.splits option.splits)

lemma sync_starts_with_list:
  "\<exists>r evs. calls (syncPluginDashboards sv plugin orgID s) =
      calls s @ (CallListPluginDashboards orgID (dto_ID plugin), r) # evs"
proof -
  obtain evs where ex: "extends sv s (syncPluginDashboards sv plugin orgID s) evs"
    and pe: "pass_events plugin orgID evs"
    using sync_calls by blast
  from pe obtain r0 rest where "evs = (CallListPluginDashboards orgID (dto_ID plugin), r0) # rest"
    unfolding pass_events_def by blast
  with ex show ?thesis by (auto simp: extends_def)
qed

lemma first_error_None: "first_error evs = None \<longleftrightarrow> all_ok evs"
proof (cases "filter (\<lambda>x. snd x \<noteq> None) evs")
  case Nil
  then show ?thesis
    by (auto simp: first_error_def all_ok_def list_all_iff filter_empty_conv)
next
  case (Cons x xs)
  then have "x \<in> set (filter (\<lambda>x. snd x \<noteq> None) evs)" by simp
  then have "x \<in> set evs" "snd x \<noteq> None" by auto
  with Cons show ?thesis
    by (auto simp: first_error_def all_ok_def list_all_iff)
qed

lemma first_error_teardown: "first_error (teardown_events ds k r) = r"
  by (cases r) (simp_all add: first_error_def teardown_events_def filter_empty_conv[THEN iffD2])

lemmas run_defs = syncPluginDashboards_def syncDashboard_def autoUpdateAppDashboard_def
  handlePluginStateChanged_def invoke_def logger_def sum_err_def fakeServices_def app_def
  removedDash_def changedDash_def start_def cpuImport_def storedDashboards_def
  settingsRow_def enableApp_def looked_up_def

section \<open>The pass on the modelled stores\<close>

lemma find_map_same:
  assumes "\<And>x. P (f x) = P x" and "\<And>x. x \<in> set xs \<Longrightarrow> P x \<Longrightarrow> f x = x"
  shows "find P (map f xs) = find P xs"
  using assms by (induction xs) auto

lemma find_map_hit:
  assumes "\<And>x. P (f x) = P x"
  shows "find P (map f xs) = map_option f (find P xs)"
  using assms by (induction xs) auto

lemma find_filter_imp:
  assumes "\<And>x. P x \<Longrightarrow> Q x"
  shows "find P (filter Q xs) = find P xs"
  using assms by (induction xs) auto

lemma find_snoc:
  "find P (xs @ [y]) = (case find P xs of Some x \<Rightarrow> Some x | None \<Rightarrow> if P y then Some y else None)"
  by (induction xs) auto

lemma find_None_ex: "find P xs = None \<longleftrightarrow> \<not> list_ex P xs"
  by (induction xs) auto

lemma filter_map_same:
  assumes "\<And>x. Q (f x) = Q x" and "\<And>x. x \<in> set xs \<Longrightarrow> Q x \<Longrightarrow> f x = x"
  shows "filter Q (map f xs) = filter Q xs"
  using assms by (induction xs) auto

lemma upsert_frame [simp]:
  "bundled (upsert org pid ref revision data w) = bundled w"
  "settings (upsert org pid ref revision data w) = settings w"
  "registry (upsert org pid ref revision data w) = registry w"
  by (simp_all add: upsert_def)

lemma upsert_find_same:
  "find (stored_at org pid ref) (dashboards (upsert org pid ref revision data w)) \<noteq> None \<and>
   (\<forall>d. find (stored_at org pid ref) (dashboards (upsert org pid ref revision data w)) = Some d
        \<longrightarrow> sd_Revision d = revision)"
proof (cases "list_ex (stored_at org pid ref) (dashboards w)")
  case True
  let ?f = "\<lambda>d. if stored_at org pid ref d then d\<lparr>sd_Revision := revision, sd_Data := data\<rparr> else d"
  have "find (stored_at org pid ref) (map ?f (dashboards w)) =
        map_option ?f (find (stored_at org pid ref) (dashboards w))"
    by (rule find_map_hit) (simp add: stored_at_def)
  moreover obtain d where d: "find (stored_at org pid ref) (dashboards w) = Some d"
    using True by (cases "find (stored_at org pid ref) (dashboards w)") (auto simp: find_None_ex)
  moreover from d have "stored_at org pid ref d" by (auto simp: find_Some_iff)
  ultimately show ?thesis using True by (simp add: upsert_def)
next
  case False
  then have "find (stored_at org pid ref) (dashboards w) = None" by (simp add: find_None_ex)
  with False show ?thesis by (simp add: upsert_def find_snoc stored_at_def)
qed

lemma upsert_find_other:
  assumes "ref' \<noteq> ref"
  shows "find (stored_at org pid ref') (dashboards (upsert org pid ref revision data w)) =
         find (stored_at org pid ref') (dashboards w)"
proof (cases "list_ex (stored_at org pid ref) (dashboards w)")
  case True
  let ?f = "\<lambda>d. if stored_at org pid ref d then d\<lparr>sd_Revision := revision, sd_Data := data\<rparr> else d"
  have "find (stored_at org pid ref') (map ?f (dashboards w)) = find (stored_at org pid ref') (dashboards w)"
    by (rule find_map_same) (use assms in \<open>auto simp: stored_at_def\<close>)
  with True show ?thesis by (simp add: upsert_def)
next
  case False
  with assms show ?thesis
    by (auto simp add: upsert_def find_snoc stored_at_def split: option.splits)
qed

lemma upsert_orphans:
  assumes "ref \<in> set (map fst (bundled w pid))"
  shows "filter (orphan (upsert org pid ref revision data w) org pid)
           (dashboards (upsert org pid ref revision data w)) =
         filter (orphan w org pid) (dashboards w)"
proof -
  have o: "orphan (upsert org pid ref revision data w) org pid = orphan w org pid"
    by (simp add: orphan_def fun_eq_iff)
  show ?thesis
  proof (cases "list_ex (stored_at org pid ref) (dashboards w)")
    case True
    let ?f = "\<lambda>d. if stored_at org pid ref d then d\<lparr>sd_Revision := revision, sd_Data := data\<rparr> else d"
    have "filter (orphan w org pid) (map ?f (dashboards w)) = filter (orphan w org pid) (dashboards w)"
      by (rule filter_map_same) (use assms in \<open>auto simp: orphan_def stored_at_def\<close>)
    with True o show ?thesis by (simp add: upsert_def)
  next
    case False
    with assms o show ?thesis by (simp add: upsert_def) (simp add: orphan_def)
  qed
qed

lemma upsert_wf:
  assumes "store_wf w pid'"
  shows "store_wf (upsert org pid ref revision data w) pid'"
proof (cases "list_ex (stored_at org pid ref) (dashboards w)")
  case True
  let ?f = "\<lambda>d. if stored_at org pid ref d then d\<lparr>sd_Revision := revision, sd_Data := data\<rparr> else d"
  have "sd_Id \<circ> ?f = sd_Id" by (auto simp: fun_eq_iff)
  with assms True show ?thesis
    by (auto simp: store_wf_def upsert_def list_all_iff)
next
  case False
  with assms show ?thesis
    by (auto simp: store_wf_def upsert_def list_all_iff)
qed

lemma loop_in_sync:
  "\<forall>d\<in>set items. \<not> pd_Removed d \<and> pd_ImportedRevision d = pd_Revision d \<Longrightarrow>
   syncPluginDashboards_loop sv plugin org items s = (True, s)"
  by (induction items) (simp_all add: syncDashboard_def)

lemma loop_append:
  "syncPluginDashboards_loop sv plugin org (xs @ ys) s =
     (case syncPluginDashboards_loop sv plugin org xs s of
        (True, s1) \<Rightarrow> syncPluginDashboards_loop sv plugin org ys s1
      | (False, s1) \<Rightarrow> (False, s1))"
  by (induction xs arbitrary: s) (auto split: prod.splits option.splits)

lemma bundledRecord_fields [simp]:
  "pd_Removed (bundledRecord w org pid (ref, revision, data)) = False"
  "pd_PluginId (bundledRecord w org pid (ref, revision, data)) = pid"
  "pd_Reference (bundledRecord w org pid (ref, revision, data)) = ref"
  "pd_Revision (bundledRecord w org pid (ref, revision, data)) = revision"
  by (simp_all add: bundledRecord_def split: option.splits)

lemma bundledRecord_cong:
  "find (stored_at org pid (fst b)) (dashboards w) = find (stored_at org pid (fst b)) (dashboards w') \<Longrightarrow>
   bundledRecord w org pid b = bundledRecord w' org pid b"
  by (cases b) (simp add: bundledRecord_def)

lemma bundledRecord_upsert:
  "pd_ImportedRevision (bundledRecord (upsert org pid ref revision data w) org pid (ref, revision, data'))
     = revision"
  using upsert_find_same[of org pid ref revision data w]
  by (auto simp: bundledRecord_def split: option.splits)

lemma bundled_step:
  assumes m: "map_of (bundled (world s) pid) ref = Some (revision, data)"
    and d: "d = bundledRecord w0 org pid (ref, revision, data)"
  shows "\<exists>s'. syncDashboard storeServices plugin org d s = (None, s') \<and>
              world s' = (if pd_ImportedRevision d \<noteq> revision
                          then upsert org pid ref revision data (world s) else world s)"
  using m unfolding d
  by (simp add: syncDashboard_def autoUpdateAppDashboard_def invoke_def storeServices_def
      logger_def sum_err_def Let_def)

lemma phaseA:
  assumes "store_wf (world s) pid"
    and "set bs \<subseteq> set (bundled (world s) pid)"
    and "distinct (map fst bs)"
    and "\<forall>b\<in>set bs. bundledRecord (world s) org pid b = bundledRecord w0 org pid b"
  shows "\<exists>s'. syncPluginDashboards_loop storeServices plugin org (map (bundledRecord w0 org pid) bs) s
                 = (True, s') \<and>
          store_wf (world s') pid \<and> bundled (world s') = bundled (world s) \<and>
          settings (world s') = settings (world s) \<and>
          filter (orphan (world s') org pid) (dashboards (world s')) =
            filter (orphan (world s) org pid) (dashboards (world s)) \<and>
          (\<forall>b\<in>set bs. pd_ImportedRevision (bundledRecord (world s') org pid b) =
                        pd_Revision (bundledRecord (world s') org pid b)) \<and>
          (\<forall>ref. ref \<notin> fst ` set bs \<longrightarrow>
             find (stored_at org pid ref) (dashboards (world s')) =
             find (stored_at org pid ref) (dashboards (world s)))"
  using assms
proof (induction bs arbitrary: s)
  case Nil
  then show ?case by simp
next
  case (Cons b bs)
  obtain ref revision data where b: "b = (ref, revision, data)" by (cases b) auto
  let ?w = "world s"
  let ?d = "bundledRecord w0 org pid (ref, revision, data)"
  from Cons.prems(1) have dk: "distinct (map fst (bundled ?w pid))" by (simp add: store_wf_def)
  from Cons.prems(2) b have bin: "(ref, revision, data) \<in> set (bundled ?w pid)" by simp
  with dk have m: "map_of (bundled ?w pid) ref = Some (revision, data)" by simp
  have "\<exists>s1. syncDashboard storeServices plugin org ?d s = (None, s1) \<and>
          world s1 = (if pd_ImportedRevision ?d \<noteq> revision
                          then upsert org pid ref revision data ?w else ?w)"
    by (rule bundled_step[OF m refl])
  then obtain s1 where
    st: "syncDashboard storeServices plugin org ?d s = (None, s1)"
    and w1: "world s1 = (if pd_ImportedRevision ?d \<noteq> revision
                          then upsert org pid ref revision data ?w else ?w)"
    by blast
  have refk: "ref \<in> set (map fst (bundled ?w pid))" using bin by force
  have wf1: "store_wf (world s1) pid"
    using Cons.prems(1) w1 by (simp add: upsert_wf)
  have bd1: "bundled (world s1) = bundled ?w" and se1: "settings (world s1) = settings ?w"
    using w1 by simp_all
  have or1: "filter (orphan (world s1) org pid) (dashboards (world s1)) =
             filter (orphan ?w org pid) (dashboards ?w)"
    using w1 upsert_orphans[OF refk] by simp
  have other1: "find (stored_at org pid ref') (dashboards (world s1)) =
                find (stored_at org pid ref') (dashboards ?w)" if "ref' \<noteq> ref" for ref'
    using w1 upsert_find_other[OF that] by simp
  have head1: "pd_ImportedRevision (bundledRecord (world s1) org pid b) = revision"
  proof (cases "pd_ImportedRevision ?d \<noteq> revision")
    case True
    with w1 show ?thesis by (simp add: b bundledRecord_upsert)
  next
    case False
    with w1 have "world s1 = ?w" by simp
    moreover from Cons.prems(4) b have "bundledRecord ?w org pid b = ?d" by simp
    ultimately show ?thesis using False by simp
  qed
  from Cons.prems(3) b have nin: "ref \<notin> fst ` set bs" and dbs: "distinct (map fst bs)" by auto
  have rec1: "\<forall>b'\<in>set bs. bundledRecord (world s1) org pid b' = bundledRecord w0 org pid b'"
  proof
    fix b' assume b': "b' \<in> set bs"
    with nin have "fst b' \<noteq> ref" by force
    from other1[OF this] have "bundledRecord (world s1) org pid b' = bundledRecord ?w org pid b'"
      by (rule bundledRecord_cong)
    with Cons.prems(4) b' show "bundledRecord (world s1) org pid b' = bundledRecord w0 org pid b'"
      by simp
  qed
  from Cons.prems(2) bd1 have sub1: "set bs \<subseteq> set (bundled (world s1) pid)" by simp
  from Cons.IH[OF wf1 sub1 dbs rec1] obtain s' where
    lp: "syncPluginDashboards_loop storeServices plugin org (map (bundledRecord w0 org pid) bs) s1 = (True, s')"
    and wf': "store_wf (world s') pid" and bd': "bundled (world s') = bundled (world s1)"
    and se': "settings (world s') = settings (world s1)"
    and or': "filter (orphan (world s') org pid) (dashboards (world s')) =
            filter (orphan (world s1) org pid) (dashboards (world s1))"
    and sy': "\<forall>b\<in>set bs. pd_ImportedRevision (bundledRecord (world s') org pid b) =
                        pd_Revision (bundledRecord (world s') org pid b)"
    and ot': "\<forall>ref. ref \<notin> fst ` set bs \<longrightarrow>
             find (stored_at org pid ref) (dashboards (world s')) =
             find (stored_at org pid ref) (dashboards (world s1))"
    by blast
  have lp': "syncPluginDashboards_loop storeServices plugin org
               (map (bundledRecord w0 org pid) (b # bs)) s = (True, s')"
    using st lp b by simp
  have "find (stored_at org pid (fst b)) (dashboards (world s')) =
        find (stored_at org pid (fst b)) (dashboards (world s1))"
    using ot' nin b by simp
  then have "bundledRecord (world s') org pid b = bundledRecord (world s1) org pid b"
    by (rule bundledRecord_cong)
  with head1 have head': "pd_ImportedRevision (bundledRecord (world s') org pid b) =
                        pd_Revision (bundledRecord (world s') org pid b)"
    by (simp add: b)
  have ot'': "\<forall>ref'. ref' \<notin> fst ` set (b # bs) \<longrightarrow>
             find (stored_at org pid ref') (dashboards (world s')) =
             find (stored_at org pid ref') (dashboards ?w)"
    using ot' other1 b by auto
  from lp' wf' bd' bd1 se' se1 or' or1 sy' head' ot'' show ?case
    by (intro exI[of _ s']) simp
qed

lemma removed_step:
  assumes "o' \<in> set (dashboards (world s))" and "sd_OrgId o' = org"
    and "distinct (map sd_Id (dashboards (world s)))"
  shows "\<exists>s'. syncDashboard storeServices plugin org (removedRecord o') s = (None, s') \<and>
              world s' = (world s)\<lparr>dashboards := filter (\<lambda>d. d \<noteq> o') (dashboards (world s))\<rparr>"
proof -
  let ?ds = "dashboards (world s)"
  have ex: "list_ex (\<lambda>d. sd_Id d = sd_Id o' \<and> sd_OrgId d = org) ?ds"
    using assms(1,2) by (auto simp: list_ex_iff)
  have "inj_on sd_Id (set ?ds)" using assms(3) by (simp add: distinct_map)
  then have "\<And>d. d \<in> set ?ds \<Longrightarrow> (sd_Id d = sd_Id o' \<and> sd_OrgId d = org) = (d = o')"
    using assms(1,2) by (auto dest: inj_onD)
  then have "filter (\<lambda>d. \<not> (sd_Id d = sd_Id o' \<and> sd_OrgId d = org)) ?ds = filter (\<lambda>d. d \<noteq> o') ?ds"
    by (intro filter_cong) auto
  with ex show ?thesis
    by (simp add: syncDashboard_def removedRecord_def invoke_def storeServices_def logger_def)
qed

lemma phaseB:
  assumes "distinct (map sd_Id (dashboards (world s)))"
    and "set os \<subseteq> set (dashboards (world s))"
    and "distinct os"
    and "\<forall>o'\<in>set os. sd_OrgId o' = org"
  shows "\<exists>s'. syncPluginDashboards_loop storeServices plugin org (map removedRecord os) s = (True, s') \<and>
              world s' = (world s)\<lparr>dashboards := filter (\<lambda>d. d \<notin> set os) (dashboards (world s))\<rparr>"
  using assms
proof (induction os arbitrary: s)
  case Nil
  then show ?case by simp
next
  case (Cons o' os)
  let ?ds = "dashboards (world s)"
  from Cons.prems have oin: "o' \<in> set ?ds" and oorg: "sd_OrgId o' = org" by auto
  from removed_step[OF oin oorg Cons.prems(1), of plugin] obtain s1 where
    st: "syncDashboard storeServices plugin org (removedRecord o') s = (None, s1)"
    and w1: "world s1 = (world s)\<lparr>dashboards := filter (\<lambda>d. d \<noteq> o') ?ds\<rparr>"
    by blast
  have d1: "distinct (map sd_Id (dashboards (world s1)))"
    using Cons.prems(1) w1 by (simp add: distinct_map_filter)
  have sub1: "set os \<subseteq> set (dashboards (world s1))"
    using Cons.prems(2,3) w1 by auto
  from Cons.prems(3,4) have "distinct os" "\<forall>o'\<in>set os. sd_OrgId o' = org" by auto
  from Cons.IH[OF d1 sub1 this] obtain s' where
    lp: "syncPluginDashboards_loop storeServices plugin org (map removedRecord os) s1 = (True, s')"
    and w': "world s' = (world s1)\<lparr>dashboards := filter (\<lambda>d. d \<notin> set os) (dashboards (world s1))\<rparr>"
    by blast
  have "filter (\<lambda>d. d \<notin> set os) (filter (\<lambda>d. d \<noteq> o') ?ds) = filter (\<lambda>d. d \<notin> set (o' # os)) ?ds"
    by (induction ?ds) auto
  with w' w1 have "world s' = (world s)\<lparr>dashboards := filter (\<lambda>d. d \<notin> set (o' # os)) ?ds\<rparr>"
    by simp
  moreover have "syncPluginDashboards_loop storeServices plugin org (map removedRecord (o' # os)) s = (True, s')"
    using st lp by simp
  ultimately show ?case by blast
qed

lemma step2_store:
  assumes wf: "store_wf (world s) pid"
  shows "\<exists>s'. syncPluginDashboards_loop storeServices plugin org (catalog (world s) org pid) s = (True, s') \<and>
              settings (world s') = settings (world s) \<and> converged (world s') org pid"
proof -
  let ?w = "world s"
  let ?O = "filter (orphan ?w org pid) (dashboards ?w)"
  have dk: "distinct (map fst (bundled ?w pid))" using wf by (simp add: store_wf_def)
  from phaseA[OF wf subset_refl dk, of org ?w plugin] obtain s1 where
    lpA: "syncPluginDashboards_loop storeServices plugin org
            (map (bundledRecord ?w org pid) (bundled ?w pid)) s = (True, s1)"
    and wf1: "store_wf (world s1) pid" and bd1: "bundled (world s1) = bundled ?w"
    and se1: "settings (world s1) = settings ?w"
    and or1: "filter (orphan (world s1) org pid) (dashboards (world s1)) = ?O"
    and sy1: "\<forall>b\<in>set (bundled ?w pid). pd_ImportedRevision (bundledRecord (world s1) org pid b) =
                        pd_Revision (bundledRecord (world s1) org pid b)"
    by auto
  let ?ds1 = "dashboards (world s1)"
  have di1: "distinct (map sd_Id ?ds1)" using wf1 by (simp add: store_wf_def)
  have sub: "set ?O \<subseteq> set ?ds1" using or1[symmetric] by auto
  have "distinct ?ds1" using di1 by (simp add: distinct_map)
  then have dO: "distinct ?O" using or1[symmetric] by simp
  have oO: "\<forall>o'\<in>set ?O. sd_OrgId o' = org" by (simp add: orphan_def)
  from phaseB[OF di1 sub dO oO, of plugin] obtain s2 where
    lpB: "syncPluginDashboards_loop storeServices plugin org (map removedRecord ?O) s1 = (True, s2)"
    and w2: "world s2 = (world s1)\<lparr>dashboards := filter (\<lambda>d. d \<notin> set ?O) ?ds1\<rparr>"
    by blast
  have lp: "syncPluginDashboards_loop storeServices plugin org (catalog ?w org pid) s = (True, s2)"
    using lpA lpB by (simp add: catalog_def loop_append)
  have orph2: "orphan (world s2) org pid = orphan (world s1) org pid"
    using w2 by (simp add: orphan_def fun_eq_iff)
  have "filter (orphan (world s1) org pid) (filter (\<lambda>d. d \<notin> set ?O) ?ds1) = []"
    using or1[symmetric] by (auto simp: filter_empty_conv)
  then have noorph: "filter (orphan (world s2) org pid) (dashboards (world s2)) = []"
    using w2 orph2 by simp
  have rec2: "bundledRecord (world s2) org pid b = bundledRecord (world s1) org pid b"
    if "b \<in> set (bundled ?w pid)" for b
  proof (rule bundledRecord_cong)
    have "find (stored_at org pid (fst b)) (filter (\<lambda>d. d \<notin> set ?O) ?ds1) =
          find (stored_at org pid (fst b)) ?ds1"
    proof (rule find_filter_imp)
      fix x assume "stored_at org pid (fst b) x"
      with that have "\<not> orphan ?w org pid x" by (force simp: orphan_def stored_at_def)
      then show "x \<notin> set ?O" by simp
    qed
    with w2 show "find (stored_at org pid (fst b)) (dashboards (world s2)) =
          find (stored_at org pid (fst b)) ?ds1" by simp
  qed
  have bd2: "bundled (world s2) = bundled ?w" using w2 bd1 by simp
  have "catalog (world s2) org pid = map (bundledRecord (world s2) org pid) (bundled ?w pid)"
    using noorph bd2 by (simp add: catalog_def)
  moreover have "\<forall>b\<in>set (bundled ?w pid).
      \<not> pd_Removed (bundledRecord (world s2) org pid b) \<and>
      pd_ImportedRevision (bundledRecord (world s2) org pid b) = pd_Revision (bundledRecord (world s2) org pid b)"
    using sy1 rec2 by (auto simp: bundledRecord_def split: option.splits)
  ultimately have "converged (world s2) org pid"
    by (simp add: converged_def list_all_iff)
  moreover have "settings (world s2) = settings ?w" using w2 se1 by simp
  ultimately show ?thesis using lp by blast
qed

lemma find_setting:
  "find (\<lambda>p. ps_PluginId p = pid \<and> ps_OrgId p = org) xs = Some p \<Longrightarrow>
   ps_PluginId p = pid \<and> ps_OrgId p = org \<and> list_ex (\<lambda>p. ps_PluginId p = pid \<and> ps_OrgId p = org) xs"
  by (induction xs) (auto split: if_splits)

lemma sync_store_world:
  "\<exists>sL. world sL = world s \<and>
     world (syncPluginDashboards storeServices plugin org s) =
       (case syncPluginDashboards_loop storeServices plugin org (catalog (world s) org (dto_ID plugin)) sL of
          (True, s2) \<Rightarrow> version_written plugin org (world s2)
        | (False, s2) \<Rightarrow> world s2)"
proof -
  let ?pid = "dto_ID plugin"
  let ?sL = "(logger Info ''Syncing plugin dashboards to DB'' s)
               \<lparr>calls := calls s @ [(CallListPluginDashboards org ?pid, None)]\<rparr>"
  have l: "invoke (CallListPluginDashboards org ?pid) sum_err
             (ListPluginDashboards storeServices org ?pid)
             (logger Info ''Syncing plugin dashboards to DB'' s) = (Inr (catalog (world s) org ?pid), ?sL)"
    by (simp add: invoke_def storeServices_def logger_def sum_err_def)
  obtain ok s2 where lp: "syncPluginDashboards_loop storeServices plugin org (catalog (world s) org ?pid) ?sL = (ok, s2)"
    by (cases "syncPluginDashboards_loop storeServices plugin org (catalog (world s) org ?pid) ?sL") auto
  have "world (syncPluginDashboards storeServices plugin org s) =
        (if ok then version_written plugin org (world s2) else world s2)"
  proof (cases ok)
    case False
    with l lp show ?thesis by (simp add: syncPluginDashboards_def)
  next
    case True
    show ?thesis
    proof (cases "find (\<lambda>p. ps_PluginId p = ?pid \<and> ps_OrgId p = org) (settings (world s2))")
      case None
      then have "\<not> list_ex (\<lambda>p. ps_PluginId p = ?pid \<and> ps_OrgId p = org) (settings (world s2))"
        by (simp add: find_None_ex)
      with None l lp True show ?thesis
        by (simp add: syncPluginDashboards_def version_written_def invoke_def storeServices_def
            logger_def sum_err_def)
    next
      case (Some p)
      from find_setting[OF this] Some l lp True show ?thesis
        by (simp add: syncPluginDashboards_def version_written_def invoke_def storeServices_def
            logger_def sum_err_def)
    qed
  qed
  moreover have "world ?sL = world s" by (simp add: logger_def)
  ultimately show ?thesis using lp by (intro exI[of _ ?sL]) (simp split: bool.splits)
qed

lemma list_ex_map_same:
  assumes "\<And>x. P (f x) = P x"
  shows "list_ex P (map f xs) = list_ex P xs"
  using assms by (induction xs) auto

lemma version_written_idem:
  "version_written plugin org (version_written plugin org w) = version_written plugin org w"
proof (cases "list_ex (\<lambda>p. ps_PluginId p = dto_ID plugin \<and> ps_OrgId p = org) (settings w)")
  case False
  then show ?thesis by (simp add: version_written_def)
next
  case True
  let ?f = "\<lambda>p. if ps_PluginId p = dto_ID plugin \<and> ps_OrgId p = org
                then p\<lparr>ps_PluginVersion := dto_Info_Version plugin\<rparr> else p"
  have "list_ex (\<lambda>p. ps_PluginId p = dto_ID plugin \<and> ps_OrgId p = org) (map ?f (settings w)) =
        list_ex (\<lambda>p. ps_PluginId p = dto_ID plugin \<and> ps_OrgId p = org) (settings w)"
    by (rule list_ex_map_same) simp
  with True have "list_ex (\<lambda>p. ps_PluginId p = dto_ID plugin \<and> ps_OrgId p = org) (map ?f (settings w))"
    by simp
  moreover have "map ?f (map ?f (settings w)) = map ?f (settings w)" by simp
  ultimately show ?thesis using True by (simp add: version_written_def)
qed

lemma version_written_catalog:
  "catalog (version_written plugin org w) org' pid = catalog w org' pid"
  by (simp add: version_written_def catalog_def bundledRecord_def orphan_def fun_eq_iff cong: map_cong filter_cong)

lemmas store_defs = syncPluginDashboards_def syncDashboard_def autoUpdateAppDashboard_def
  invoke_def logger_def sum_err_def storeServices_def catalog_def bundledRecord_def orphan_def
  removedRecord_def upsert_def stored_at_def exampleStores_def storeStart_def app_def

section \<open>Claims\<close>



text \<open>
  C2, as the code has it. The handler returns an error of its own branch only. For a
  disabled notification it returns the first error among its calls (the query for the
  stored dashboards, or the first deletion that failed). For an enabled notification it
  returns the not-found error when the registry does not know the plugin; otherwise it
  runs the sync pass and returns no error, whatever failed in the pass: the pass has no
  result, and a failure in it ends it with an entry at error level in the log.
\<close>

theorem handler_returns_own_errors:
  assumes "handlePluginStateChanged sv event s = (r, s')"
  shows "(\<not> ev_Enabled event \<longrightarrow> r = first_error (drop (length (calls s)) (calls s'))) \<and>
         (ev_Enabled event \<longrightarrow>
            (case fst (Plugin sv (ev_PluginId event) (world s)) of
               None \<Rightarrow> r = Some (Error (''plugin '' @ ev_PluginId event
                                          @ '' not found. Could not sync plugin dashboards''))
             | Some p \<Rightarrow> r = None \<and>
                 s' = syncPluginDashboards sv p (ev_OrgId event) (looked_up sv (ev_PluginId event) (logger Info ''Plugin state changed'' s)) \<and>
                 (first_error (drop (length (calls s)) (calls s')) \<noteq> None \<longrightarrow> logged_error s')))"
proof (cases "ev_Enabled event")
  case True
  let ?s0 = "logger Info ''Plugin state changed'' s"
  show ?thesis
  proof (cases "fst (Plugin sv (ev_PluginId event) (world s))")
    case None
    with True assms show ?thesis
      by (auto simp: handlePluginStateChanged_def invoke_def logger_def Let_def split: prod.splits)
  next
    case (Some p)
    let ?s1 = "looked_up sv (ev_PluginId event) ?s0"
    from Some True assms have r: "r = None"
      and s': "s' = syncPluginDashboards sv p (ev_OrgId event) ?s1"
      by (auto simp: handlePluginStateChanged_def invoke_def logger_def looked_up_def Let_def
               split: prod.splits)
    obtain evs where ex: "extends sv ?s1 s' evs"
      and lg: "\<not> all_ok evs \<longrightarrow> logged_error s'"
      using sync_calls_logs[of sv ?s1 p "ev_OrgId event"] s' by blast
    from ex have "drop (length (calls s)) (calls s') = (CallPlugin (ev_PluginId event), None) # evs"
      by (simp add: extends_def looked_up_def logger_def)
    moreover have "first_error ((CallPlugin (ev_PluginId event), None) # evs) = first_error evs"
      by (simp add: first_error_def)
    ultimately have "first_error (drop (length (calls s)) (calls s')) \<noteq> None \<longrightarrow> logged_error s'"
      using lg by (simp add: first_error_None)
    with True Some r s' show ?thesis by simp
  qed
next
  case False
  let ?q = "CallGetDashboardsByPluginID (ev_PluginId event) (ev_OrgId event)"
  let ?s0 = "logger Info ''Plugin state changed'' s"
  obtain r0 s1 where i: "invoke ?q sum_err
      (GetDashboardsByPluginID sv (ev_PluginId event) (ev_OrgId event)) ?s0 = (r0, s1)"
    by (cases "invoke ?q sum_err
      (GetDashboardsByPluginID sv (ev_PluginId event) (ev_OrgId event)) ?s0") auto
  have "extends sv ?s0 s1 [(?q, sum_err r0)]"
    using extends_invoke[OF i, of sv] by simp
  then have e0: "extends sv s s1 [(?q, sum_err r0)]" by (rule extends_logger_pre)
  have "r = first_error (drop (length (calls s)) (calls s'))"
  proof (cases r0)
    case (Inl err)
    with False assms i have "r = Some err" "s' = s1"
      by (auto simp: handlePluginStateChanged_def Let_def)
    with e0 Inl show ?thesis by (simp add: extends_def first_error_def sum_err_def)
  next
    case (Inr ds)
    with False assms i have "handlePluginStateChanged_loop sv ds s1 = (r, s')"
      by (simp add: handlePluginStateChanged_def Let_def)
    from teardown_loop_calls[OF this] obtain k where
      e1: "extends sv s1 s' (teardown_events ds k r)" by blast
    from extends_trans[OF e0 e1] Inr
    have "drop (length (calls s)) (calls s') = (?q, None) # teardown_events ds k r"
      by (simp add: extends_def sum_err_def)
    moreover have "first_error ((?q, None) # teardown_events ds k r) = first_error (teardown_events ds k r)"
      by (simp add: first_error_def)
    ultimately show ?thesis by (simp add: first_error_teardown)
  qed
  with False show ?thesis by simp
qed

theorem handler_returns_own_errors_witness:
  "handlePluginStateChanged (fakeServices [removedDash, changedDash] [] [13] True) enableApp start =
     (None, snd (handlePluginStateChanged (fakeServices [removedDash, changedDash] [] [13] True)
                   enableApp start)) \<and>
   ev_Enabled enableApp \<and>
   fst (Plugin (fakeServices [removedDash, changedDash] [] [13] True) (ev_PluginId enableApp)
          (world start)) = Some app \<and>
   first_error (drop (length (calls start))
      (calls (snd (handlePluginStateChanged (fakeServices [removedDash, changedDash] [] [13] True)
                     enableApp start)))) \<noteq> None \<and>
   logged_error (snd (handlePluginStateChanged (fakeServices [removedDash, changedDash] [] [13] True)
                        enableApp start))"
proof -
  let ?sv = "fakeServices [removedDash, changedDash] [] [13] True"
  have r: "fst (handlePluginStateChanged ?sv enableApp start) = None"
    by (simp add: run_defs)
  then have h: "handlePluginStateChanged ?sv enableApp start =
      (None, snd (handlePluginStateChanged ?sv enableApp start))"
    by (simp add: prod_eq_iff)
  have e: "ev_Enabled enableApp" by (simp add: enableApp_def)
  have p: "fst (Plugin ?sv (ev_PluginId enableApp) (world start)) = Some app"
    by (simp add: fakeServices_def enableApp_def app_def)
  have f: "first_error (drop (length (calls start))
      (calls (snd (handlePluginStateChanged ?sv enableApp start)))) \<noteq> None"
    by (simp add: run_defs first_error_def)
  from handler_returns_own_errors[OF h] e p f h show ?thesis by simp
qed

text \<open>
  C2, as stated, fails: with a registry that knows the plugin and a dashboard store
  whose deletion fails, the pass started by an enabled notification meets the error
  \<^verbatim>\<open>delete failed\<close> and the handler returns no error.
\<close>

theorem handler_swallows_sync_errors:
  "first_error (calls (snd (handlePluginStateChanged (fakeServices [removedDash, changedDash] [] [13] True)
      enableApp start))) = Some (Error ''delete failed'') \<and>
   fst (handlePluginStateChanged (fakeServices [removedDash, changedDash] [] [13] True)
      enableApp start) = None"
  by (simp add: run_defs first_error_def)

text \<open>
  C3. A disabled notification, once the stored dashboards \<open>ds\<close> of the plugin are read,
  makes one deletion call per dashboard, in order, and no other call. When the handler
  returns no error there are exactly \<open>length ds\<close> deletions; when it returns an error,
  that error is the one of the deletion that failed, the \<open>k\<close> deletions before it
  succeeded and stay, and nothing is called after it. The world is the one these calls
  left.
\<close>

theorem disable_deletes_stored_dashboards:
  assumes "\<not> ev_Enabled event"
    and "fst (GetDashboardsByPluginID sv (ev_PluginId event) (ev_OrgId event) (world s)) = Inr ds"
    and "handlePluginStateChanged sv event s = (r, s')"
  shows "\<exists>k. calls s' = calls s @
                 (CallGetDashboardsByPluginID (ev_PluginId event) (ev_OrgId event), None) #
                 map (\<lambda>d. (delete_call d, None)) (take k ds) @
                 (case r of None \<Rightarrow> [] | Some e \<Rightarrow> [(delete_call (ds ! k), Some e)]) \<and>
             (r = None \<longrightarrow> k = length ds) \<and> (r \<noteq> None \<longrightarrow> k < length ds) \<and>
             world s' = replay sv (map fst (drop (length (calls s)) (calls s'))) (world s)"
proof -
  let ?q = "CallGetDashboardsByPluginID (ev_PluginId event) (ev_OrgId event)"
  let ?s0 = "logger Info ''Plugin state changed'' s"
  obtain r0 s1 where i: "invoke ?q sum_err
      (GetDashboardsByPluginID sv (ev_PluginId event) (ev_OrgId event)) ?s0 = (r0, s1)"
    by (cases "invoke ?q sum_err
      (GetDashboardsByPluginID sv (ev_PluginId event) (ev_OrgId event)) ?s0") auto
  from invoke_result[OF i] assms(2) have r0: "r0 = Inr ds" by (simp add: logger_def)
  have "extends sv ?s0 s1 [(?q, sum_err r0)]"
    using extends_invoke[OF i, of sv] by simp
  then have e0: "extends sv s s1 [(?q, None)]"
    using r0 by (simp add: extends_logger_pre sum_err_def)
  from assms(1,3) i r0 have "handlePluginStateChanged_loop sv ds s1 = (r, s')"
    by (simp add: handlePluginStateChanged_def Let_def)
  from teardown_loop_calls[OF this] obtain k where
    e1: "extends sv s1 s' (teardown_events ds k r)"
    and k: "r = None \<longrightarrow> k = length ds" "r \<noteq> None \<longrightarrow> k < length ds" by blast
  from extends_trans[OF e0 e1] have ex: "extends sv s s' ((?q, None) # teardown_events ds k r)"
    by simp
  then have "calls s' = calls s @ (?q, None) # teardown_events ds k r"
    and "world s' = replay sv (map fst (drop (length (calls s)) (calls s'))) (world s)"
    by (simp_all add: extends_def)
  with k show ?thesis unfolding teardown_events_def by blast
qed

theorem disable_deletes_stored_dashboards_witness:
  "\<not> ev_Enabled \<lparr>ev_PluginId = ''app'', ev_OrgId = 1, ev_Enabled = False\<rparr> \<and>
   fst (GetDashboardsByPluginID (fakeServices [] storedDashboards [22] True) ''app'' 1 (world start)) =
     Inr storedDashboards \<and>
   fst (handlePluginStateChanged (fakeServices [] storedDashboards [22] True)
          \<lparr>ev_PluginId = ''app'', ev_OrgId = 1, ev_Enabled = False\<rparr> start) =
     Some (Error ''delete failed'') \<and>
   calls (snd (handlePluginStateChanged (fakeServices [] storedDashboards [22] True)
          \<lparr>ev_PluginId = ''app'', ev_OrgId = 1, ev_Enabled = False\<rparr> start)) =
     [(CallGetDashboardsByPluginID ''app'' 1, None), (CallDeleteDashboard 21 1, None),
      (CallDeleteDashboard 22 1, Some (Error ''delete failed''))] \<and>
   (\<exists>k. calls (snd (handlePluginStateChanged (fakeServices [] storedDashboards [22] True)
          \<lparr>ev_PluginId = ''app'', ev_OrgId = 1, ev_Enabled = False\<rparr> start)) =
        calls start @ (CallGetDashboardsByPluginID ''app'' 1, None) #
          map (\<lambda>d. (delete_call d, None)) (take k storedDashboards) @
          [(delete_call (storedDashboards ! k), Some (Error ''delete failed''))] \<and>
        k < length storedDashboards)"
proof -
  let ?sv = "fakeServices [] storedDashboards [22] True"
  let ?ev = "\<lparr>ev_PluginId = ''app'', ev_OrgId = 1, ev_Enabled = False\<rparr>"
  have h1: "\<not> ev_Enabled ?ev" by simp
  have h2: "fst (GetDashboardsByPluginID ?sv (ev_PluginId ?ev) (ev_OrgId ?ev) (world start)) =
     Inr storedDashboards"
    by (simp add: fakeServices_def)
  have r: "fst (handlePluginStateChanged ?sv ?ev start) = Some (Error ''delete failed'')"
    by (simp add: run_defs)
  have c: "calls (snd (handlePluginStateChanged ?sv ?ev start)) =
     [(CallGetDashboardsByPluginID ''app'' 1, None), (CallDeleteDashboard 21 1, None),
      (CallDeleteDashboard 22 1, Some (Error ''delete failed''))]"
    by (simp add: run_defs)
  have h3: "handlePluginStateChanged ?sv ?ev start =
     (Some (Error ''delete failed''), snd (handlePluginStateChanged ?sv ?ev start))"
    using r by (simp add: prod_eq_iff)
  from disable_deletes_stored_dashboards[OF h1 h2 h3] h1 h2 r c show ?thesis
    by (simp add: fakeServices_def) blast
qed

text \<open>
  C4. A record whose removed flag is set, at the head of the records still to handle,
  gives rise to the one call that deletes its stored dashboard, whatever its revisions:
  the loop then goes on with the other records, or stops if the deletion failed. Nothing
  is loaded or imported for it.
\<close>

theorem removed_record_deleted_not_imported:
  assumes "pd_Removed dash"
  shows "\<exists>r s1. r = fst (DeleteDashboard sv (pd_DashboardId dash) orgID (world s)) \<and>
           world s1 = snd (DeleteDashboard sv (pd_DashboardId dash) orgID (world s)) \<and>
           calls s1 = calls s @ [(CallDeleteDashboard (pd_DashboardId dash) orgID, r)] \<and>
           syncPluginDashboards_loop sv plugin orgID (dash # rest) s =
             (case r of
                None \<Rightarrow> syncPluginDashboards_loop sv plugin orgID rest s1
              | Some e \<Rightarrow> (False, logger Err ''Failed to auto update app dashboard'' s1))"
proof -
  let ?c = "CallDeleteDashboard (pd_DashboardId dash) orgID"
  obtain r s1 where i: "invoke ?c id (DeleteDashboard sv (pd_DashboardId dash) orgID)
           (logger Info ''Deleting plugin dashboard'' s) = (r, s1)"
    by (cases "invoke ?c id (DeleteDashboard sv (pd_DashboardId dash) orgID)
           (logger Info ''Deleting plugin dashboard'' s)") auto
  then have "r = fst (DeleteDashboard sv (pd_DashboardId dash) orgID (world s))"
    and "world s1 = snd (DeleteDashboard sv (pd_DashboardId dash) orgID (world s))"
    and "calls s1 = calls s @ [(?c, r)]"
    by (auto simp: invoke_def logger_def split: prod.splits)
  moreover from assms i have "syncPluginDashboards_loop sv plugin orgID (dash # rest) s =
             (case r of
                None \<Rightarrow> syncPluginDashboards_loop sv plugin orgID rest s1
              | Some e \<Rightarrow> (False, logger Err ''Failed to auto update app dashboard'' s1))"
    by (simp add: syncDashboard_def split: option.splits)
  ultimately show ?thesis by blast
qed

theorem removed_record_deleted_not_imported_witness:
  "pd_Removed removedDash \<and> pd_ImportedRevision removedDash \<noteq> pd_Revision removedDash \<and>
   (\<exists>r s1. r = fst (DeleteDashboard (fakeServices [] [] [] True) (pd_DashboardId removedDash) 1
                     (world start)) \<and>
      world s1 = snd (DeleteDashboard (fakeServices [] [] [] True) (pd_DashboardId removedDash) 1
                     (world start)) \<and>
      calls s1 = calls start @ [(CallDeleteDashboard (pd_DashboardId removedDash) 1, r)] \<and>
      syncPluginDashboards_loop (fakeServices [] [] [] True) app 1 (removedDash # [changedDash]) start =
        (case r of
           None \<Rightarrow> syncPluginDashboards_loop (fakeServices [] [] [] True) app 1 [changedDash] s1
         | Some e \<Rightarrow> (False, logger Err ''Failed to auto update app dashboard'' s1)))"
proof -
  have h: "pd_Removed removedDash" by (simp add: removedDash_def)
  have "pd_ImportedRevision removedDash \<noteq> pd_Revision removedDash"
    by (simp add: removedDash_def)
  with removed_record_deleted_not_imported[OF h, of "fakeServices [] [] [] True" 1 start app "[changedDash]"] h
  show ?thesis by blast
qed

text \<open>
  C5. Each row of the startup sweep is handled on its own, from the state the rows before
  it left. For a row, a sync pass is started (its catalog query appears among the calls
  of the row) exactly when the row is enabled, the registry knows its plugin, and the
  registry's version differs from the row's; the pass is then run for the plugin the
  registry returned and the organisation of the row. In every other case (a disabled
  row, a plugin absent from the registry, equal versions) the row makes at most the
  registry lookup and logs nothing.
\<close>

theorem sweep_syncs_outdated_enabled_plugins:
  "updateAppDashboards_loop sv (ps # rest) s =
     updateAppDashboards_loop sv rest (updateAppDashboards_loop sv [ps] s) \<and>
   ((\<exists>org pid r. (CallListPluginDashboards org pid, r) \<in>
        set (drop (length (calls s)) (calls (updateAppDashboards_loop sv [ps] s))))
      \<longleftrightarrow> sync_due sv ps (world s)) \<and>
   (sync_due sv ps (world s) \<longrightarrow>
      (\<exists>pluginDef. fst (Plugin sv (ps_PluginId ps) (world s)) = Some pluginDef \<and>
         updateAppDashboards_loop sv [ps] s =
           syncPluginDashboards sv pluginDef (ps_OrgId ps) (looked_up sv (ps_PluginId ps) s))) \<and>
   (\<not> sync_due sv ps (world s) \<longrightarrow>
      logs (updateAppDashboards_loop sv [ps] s) = logs s \<and>
      (updateAppDashboards_loop sv [ps] s = s \<or>
       updateAppDashboards_loop sv [ps] s = looked_up sv (ps_PluginId ps) s))"
proof -
  let ?row = "updateAppDashboards_loop sv [ps] s"
  let ?new = "drop (length (calls s)) (calls ?row)"
  have split: "updateAppDashboards_loop sv (ps # rest) s = updateAppDashboards_loop sv rest ?row"
    by (rule sweep_split)
  show ?thesis
  proof (cases "sync_due sv ps (world s)")
    case True
    then obtain pluginDef where d: "fst (Plugin sv (ps_PluginId ps) (world s)) = Some pluginDef"
      and v: "dto_Info_Version pluginDef \<noteq> ps_PluginVersion ps" and en: "ps_Enabled ps"
      by (auto simp: sync_due_def split: option.splits)
    then have row: "?row = syncPluginDashboards sv pluginDef (ps_OrgId ps) (looked_up sv (ps_PluginId ps) s)"
      by (subst sweep_row) simp
    from sync_starts_with_list[of sv pluginDef "ps_OrgId ps" "looked_up sv (ps_PluginId ps) s"]
    obtain r evs where "calls ?row = calls s @ (CallPlugin (ps_PluginId ps), None) #
        (CallListPluginDashboards (ps_OrgId ps) (dto_ID pluginDef), r) # evs"
      unfolding row by (auto simp: looked_up_def)
    then have "(CallListPluginDashboards (ps_OrgId ps) (dto_ID pluginDef), r) \<in> set ?new"
      by simp
    with True d row split show ?thesis by blast
  next
    case False
    then have row: "?row = s \<or> ?row = looked_up sv (ps_PluginId ps) s"
      by (subst (1 2) sweep_row) (auto simp: sync_due_def split: option.splits)
    then have "?new = [] \<or> ?new = [(CallPlugin (ps_PluginId ps), None)]"
      by (auto simp: looked_up_def)
    then have "\<not> (\<exists>org pid r. (CallListPluginDashboards org pid, r) \<in> set ?new)"
      by auto
    moreover from row have "logs ?row = logs s" by (auto simp: looked_up_def)
    ultimately show ?thesis using False row split by blast
  qed
qed

theorem sweep_syncs_outdated_enabled_plugins_witness:
  "sync_due (fakeServices [] [] [] True) (settingsRow ''app'' ''1.0.0'') (world start) \<and>
   updateAppDashboards_loop (fakeServices [] [] [] True) [settingsRow ''app'' ''1.0.0''] start =
     syncPluginDashboards (fakeServices [] [] [] True) app 1
       (looked_up (fakeServices [] [] [] True) ''app'' start) \<and>
   \<not> sync_due (fakeServices [] [] [] True) (settingsRow ''app'' ''2.0.0'') (world start) \<and>
   calls (updateAppDashboards_loop (fakeServices [] [] [] True) [settingsRow ''app'' ''2.0.0''] start) =
     [(CallPlugin ''app'', None)] \<and>
   \<not> sync_due (fakeServices [] [] [] True) (settingsRow ''ghost'' ''1.0.0'') (world start) \<and>
   calls (updateAppDashboards_loop (fakeServices [] [] [] True) [settingsRow ''ghost'' ''1.0.0''] start) =
     [(CallPlugin ''ghost'', None)] \<and>
   logs (updateAppDashboards_loop (fakeServices [] [] [] True) [settingsRow ''ghost'' ''1.0.0''] start) =
     logs start"
proof -
  let ?sv = "fakeServices [] [] [] True"
  have d1: "sync_due ?sv (settingsRow ''app'' ''1.0.0'') (world start)"
    by (simp add: sync_due_def fakeServices_def settingsRow_def)
  have p1: "fst (Plugin ?sv (ps_PluginId (settingsRow ''app'' ''1.0.0'')) (world start)) = Some app"
    by (simp add: fakeServices_def settingsRow_def app_def)
  have d2: "\<not> sync_due ?sv (settingsRow ''app'' ''2.0.0'') (world start)"
    by (simp add: sync_due_def fakeServices_def settingsRow_def)
  have d3: "\<not> sync_due ?sv (settingsRow ''ghost'' ''1.0.0'') (world start)"
    by (simp add: sync_due_def fakeServices_def settingsRow_def)
  have c2: "calls (updateAppDashboards_loop ?sv [settingsRow ''app'' ''2.0.0''] start) =
     [(CallPlugin ''app'', None)]"
    by (simp add: run_defs)
  have c3: "calls (updateAppDashboards_loop ?sv [settingsRow ''ghost'' ''1.0.0''] start) =
     [(CallPlugin ''ghost'', None)]"
    by (simp add: run_defs)
  from sweep_syncs_outdated_enabled_plugins[of ?sv "settingsRow ''app'' ''1.0.0''" "[]" start] d1 p1
  have "updateAppDashboards_loop ?sv [settingsRow ''app'' ''1.0.0''] start =
     syncPluginDashboards ?sv app 1 (looked_up ?sv ''app'' start)"
    by (simp add: settingsRow_def)
  moreover
  from sweep_syncs_outdated_enabled_plugins[of ?sv "settingsRow ''ghost'' ''1.0.0''" "[]" start] d3
  have "logs (updateAppDashboards_loop ?sv [settingsRow ''ghost'' ''1.0.0''] start) = logs start"
    by blast
  ultimately show ?thesis using d1 d2 d3 c2 c3 by blast
qed

text \<open>
  C6. On the stores as the specification describes them, with unique dashboard
  identifiers and unique references in the plugin, a second pass right after a first one
  leaves the world as the first pass left it: the same stored dashboards, the same
  settings and so the same last-synchronized version. This holds whether or not step 3
  of the first pass found the setting row.
\<close>

theorem sync_twice_same_stores:
  assumes "store_wf (world s) (dto_ID plugin)"
  shows "world (syncPluginDashboards storeServices plugin orgID
                  (syncPluginDashboards storeServices plugin orgID s)) =
         world (syncPluginDashboards storeServices plugin orgID s)"
proof -
  let ?pid = "dto_ID plugin"
  let ?s1 = "syncPluginDashboards storeServices plugin orgID s"
  obtain sL where sL: "world sL = world s"
    and p1: "world ?s1 =
       (case syncPluginDashboards_loop storeServices plugin orgID (catalog (world s) orgID ?pid) sL of
          (True, s2) \<Rightarrow> version_written plugin orgID (world s2)
        | (False, s2) \<Rightarrow> world s2)"
    using sync_store_world by blast
  from assms sL have "store_wf (world sL) ?pid" by simp
  from step2_store[OF this, of plugin orgID] sL obtain s2 where
    lp: "syncPluginDashboards_loop storeServices plugin orgID (catalog (world s) orgID ?pid) sL = (True, s2)"
    and cv: "converged (world s2) orgID ?pid"
    by auto
  from p1 lp have w1: "world ?s1 = version_written plugin orgID (world s2)" by simp
  obtain sL' where sL': "world sL' = world ?s1"
    and p2: "world (syncPluginDashboards storeServices plugin orgID ?s1) =
       (case syncPluginDashboards_loop storeServices plugin orgID (catalog (world ?s1) orgID ?pid) sL' of
          (True, s2) \<Rightarrow> version_written plugin orgID (world s2)
        | (False, s2) \<Rightarrow> world s2)"
    using sync_store_world by blast
  have "catalog (world ?s1) orgID ?pid = catalog (world s2) orgID ?pid"
    using w1 by (simp add: version_written_catalog)
  with cv have "\<forall>d\<in>set (catalog (world ?s1) orgID ?pid).
      \<not> pd_Removed d \<and> pd_ImportedRevision d = pd_Revision d"
    by (simp add: converged_def list_all_iff)
  then have "syncPluginDashboards_loop storeServices plugin orgID (catalog (world ?s1) orgID ?pid) sL' = (True, sL')"
    by (rule loop_in_sync)
  with p2 sL' w1 show ?thesis by (simp add: version_written_idem)
qed

theorem sync_twice_same_stores_witness:
  "store_wf (world storeStart) (dto_ID app) \<and>
   dashboards (world (syncPluginDashboards storeServices app 1 storeStart)) =
     [\<lparr>sd_Id = 14, sd_OrgId = 1, sd_PluginId = ''app'',
       sd_Reference = ''dashboards/cpu.json'', sd_Revision = 3, sd_Data = ''{cpu v3}''\<rparr>,
      \<lparr>sd_Id = 15, sd_OrgId = 1, sd_PluginId = ''app'',
       sd_Reference = ''dashboards/mem.json'', sd_Revision = 1, sd_Data = ''{mem v1}''\<rparr>] \<and>
   settings (world (syncPluginDashboards storeServices app 1 storeStart)) =
     [\<lparr>ps_OrgId = 1, ps_PluginId = ''app'', ps_Enabled = True, ps_PluginVersion = ''2.0.0''\<rparr>] \<and>
   world (syncPluginDashboards storeServices app 1
            (syncPluginDashboards storeServices app 1 storeStart)) =
     world (syncPluginDashboards storeServices app 1 storeStart)"
proof -
  have h: "store_wf (world storeStart) (dto_ID app)"
    by (simp add: store_wf_def storeStart_def exampleStores_def app_def)
  have d: "dashboards (world (syncPluginDashboards storeServices app 1 storeStart)) =
     [\<lparr>sd_Id = 14, sd_OrgId = 1, sd_PluginId = ''app'',
       sd_Reference = ''dashboards/cpu.json'', sd_Revision = 3, sd_Data = ''{cpu v3}''\<rparr>,
      \<lparr>sd_Id = 15, sd_OrgId = 1, sd_PluginId = ''app'',
       sd_Reference = ''dashboards/mem.json'', sd_Revision = 1, sd_Data = ''{mem v1}''\<rparr>]"
    by (simp add: store_defs)
  have v: "settings (world (syncPluginDashboards storeServices app 1 storeStart)) =
     [\<lparr>ps_OrgId = 1, ps_PluginId = ''app'', ps_Enabled = True, ps_PluginVersion = ''2.0.0''\<rparr>]"
    by (simp add: store_defs)
  from sync_twice_same_stores[OF h] h d v show ?thesis by simp
qed

text \<open>
  C7. An enabled notification for a plugin the registry does not know returns the error
  \<^verbatim>\<open>plugin <id> not found. Could not sync plugin dashboards\<close>. The registry lookup is
  the only call made: no dashboard is deleted or imported and no setting is written.
\<close>

theorem enable_unknown_plugin:
  assumes "ev_Enabled event"
    and "fst (Plugin sv (ev_PluginId event) (world s)) = None"
  shows "fst (handlePluginStateChanged sv event s) =
           Some (Error (''plugin '' @ ev_PluginId event @ '' not found. Could not sync plugin dashboards'')) \<and>
         calls (snd (handlePluginStateChanged sv event s)) = calls s @ [(CallPlugin (ev_PluginId event), None)] \<and>
         world (snd (handlePluginStateChanged sv event s)) = snd (Plugin sv (ev_PluginId event) (world s))"
  using assms
  by (auto simp: handlePluginStateChanged_def invoke_def logger_def Let_def split: prod.splits)

theorem enable_unknown_plugin_witness:
  "ev_Enabled \<lparr>ev_PluginId = ''ghost'', ev_OrgId = 1, ev_Enabled = True\<rparr> \<and>
   fst (Plugin (fakeServices [changedDash] [] [] True) ''ghost'' (world start)) = None \<and>
   fst (handlePluginStateChanged (fakeServices [changedDash] [] [] True)
          \<lparr>ev_PluginId = ''ghost'', ev_OrgId = 1, ev_Enabled = True\<rparr> start) =
     Some (Error ''plugin ghost not found. Could not sync plugin dashboards'') \<and>
   calls (snd (handlePluginStateChanged (fakeServices [changedDash] [] [] True)
          \<lparr>ev_PluginId = ''ghost'', ev_OrgId = 1, ev_Enabled = True\<rparr> start)) =
     [(CallPlugin ''ghost'', None)] \<and>
   world (snd (handlePluginStateChanged (fakeServices [changedDash] [] [] True)
          \<lparr>ev_PluginId = ''ghost'', ev_OrgId = 1, ev_Enabled = True\<rparr> start)) = 0"
proof -
  let ?sv = "fakeServices [changedDash] [] [] True"
  let ?ev = "\<lparr>ev_PluginId = ''ghost'', ev_OrgId = 1, ev_Enabled = True\<rparr>"
  have h1: "ev_Enabled ?ev" by simp
  have h2: "fst (Plugin ?sv (ev_PluginId ?ev) (world start)) = None"
    by (simp add: fakeServices_def)
  from enable_unknown_plugin[OF h1 h2] h1 h2 show ?thesis
    by (simp add: fakeServices_def start_def)
qed

text \<open>
  C8, as the code has it. When the catalog lists no record, the pass makes no deletion,
  load or import: after the catalog query it reads the plugin setting. When that read
  succeeds, it calls \<^verbatim>\<open>UpdatePluginSettingVersion\<close> with the plugin's current version, for
  the organisation and plugin of the setting it read, and the world is the one that
  write left. When the read fails, the pass ends there: no version is written and the
  world is the one the read left.
\<close>

theorem sync_empty_catalog:
  assumes "fst (ListPluginDashboards sv orgID (dto_ID plugin) (world s)) = Inr []"
  shows "calls (syncPluginDashboards sv plugin orgID s) =
           calls s @ (CallListPluginDashboards orgID (dto_ID plugin), None) #
             (case GetPluginSettingById sv (dto_ID plugin) orgID
                     (snd (ListPluginDashboards sv orgID (dto_ID plugin) (world s))) of
                (Inl e, w) \<Rightarrow> [(CallGetPluginSettingById (dto_ID plugin) orgID, Some e)]
              | (Inr appSetting, w) \<Rightarrow>
                  [(CallGetPluginSettingById (dto_ID plugin) orgID, None),
                   (CallUpdatePluginSettingVersion (ps_OrgId appSetting) (ps_PluginId appSetting)
                      (dto_Info_Version plugin),
                    fst (UpdatePluginSettingVersion sv (ps_OrgId appSetting)
                           (ps_PluginId appSetting) (dto_Info_Version plugin) w))]) \<and>
         world (syncPluginDashboards sv plugin orgID s) =
           (case GetPluginSettingById sv (dto_ID plugin) orgID
                   (snd (ListPluginDashboards sv orgID (dto_ID plugin) (world s))) of
              (Inl e, w) \<Rightarrow> w
            | (Inr appSetting, w) \<Rightarrow>
                snd (UpdatePluginSettingVersion sv (ps_OrgId appSetting)
                       (ps_PluginId appSetting) (dto_Info_Version plugin) w))"
  using assms
  by (auto simp: syncPluginDashboards_def invoke_def logger_def sum_err_def
           split: prod.splits sum.splits option.splits)

theorem sync_empty_catalog_witness:
  "fst (ListPluginDashboards (fakeServices [] [] [] True) 1 (dto_ID app) (world start)) = Inr [] \<and>
   calls (syncPluginDashboards (fakeServices [] [] [] True) app 1 start) =
     [(CallListPluginDashboards 1 ''app'', None), (CallGetPluginSettingById ''app'' 1, None),
      (CallUpdatePluginSettingVersion 1 ''app'' ''2.0.0'', None)] \<and>
   world (syncPluginDashboards (fakeServices [] [] [] True) app 1 start) = 1"
proof -
  have h: "fst (ListPluginDashboards (fakeServices [] [] [] True) 1 (dto_ID app) (world start)) = Inr []"
    by (simp add: fakeServices_def)
  from sync_empty_catalog[OF h] h show ?thesis
    by (simp add: fakeServices_def app_def start_def)
qed

text \<open>
  C8, as stated, fails: with an empty catalog and a settings store that does not find the
  row, the pass makes the catalog query and the failing read, calls no
  \<^verbatim>\<open>UpdatePluginSettingVersion\<close>, and leaves the world as it was.
\<close>

theorem sync_empty_catalog_unread_setting:
  "fst (ListPluginDashboards (fakeServices [] [] [] False) 1 (dto_ID app) (world start)) = Inr [] \<and>
   calls (syncPluginDashboards (fakeServices [] [] [] False) app 1 start) =
     [(CallListPluginDashboards 1 ''app'', None),
      (CallGetPluginSettingById ''app'' 1, Some (Error ''plugin setting not found''))] \<and>
   world (syncPluginDashboards (fakeServices [] [] [] False) app 1 start) = world start"
  by (simp add: run_defs)

text \<open>
  C9. In every sync pass, a failed call of step 3 (the read of the plugin setting or the
  write of its version) is the last call of the pass: every call before it succeeded,
  none of them is a version write, and nothing is called after it, neither to undo a
  deletion or an import nor to write the version again. The world is the one these calls
  left.
\<close>

theorem sync_final_step_failure:
  assumes "calls (syncPluginDashboards sv plugin orgID s) = calls s @ before @ (c, Some e) # after"
    and "step3_call c"
  shows "after = [] \<and> all_ok before \<and>
         (\<forall>org pid v r. (CallUpdatePluginSettingVersion org pid v, r) \<notin> set before) \<and>
         world (syncPluginDashboards sv plugin orgID s) = replay sv (map fst before @ [c]) (world s)"
proof -
  obtain evs where ex: "extends sv s (syncPluginDashboards sv plugin orgID s) evs"
    and pe: "pass_events plugin orgID evs"
    using sync_calls by blast
  from extends_calls[OF ex assms(1)] have evs: "evs = before @ (c, Some e) # after" by simp
  from pass_events_failed_step3[OF pe[unfolded evs] assms(2)]
  have a: "after = []" and b: "all_ok before"
    and u: "\<forall>org pid v r. (CallUpdatePluginSettingVersion org pid v, r) \<notin> set before"
    by blast+
  from ex evs a have "world (syncPluginDashboards sv plugin orgID s) = replay sv (map fst before @ [c]) (world s)"
    by (simp add: extends_def)
  with a b u show ?thesis by blast
qed

theorem sync_final_step_failure_witness:
  "calls (syncPluginDashboards (fakeServices [changedDash] [] [] False) app 1 start) =
     calls start @ [(CallListPluginDashboards 1 ''app'', None),
                    (CallLoadPluginDashboard ''app'' ''dashboards/cpu.json'', None),
                    (CallImportDashboard cpuImport, None)]
       @ (CallGetPluginSettingById ''app'' 1, Some (Error ''plugin setting not found'')) # [] \<and>
   step3_call (CallGetPluginSettingById ''app'' 1) \<and>
   all_ok [(CallListPluginDashboards 1 ''app'', None),
           (CallLoadPluginDashboard ''app'' ''dashboards/cpu.json'', None),
           (CallImportDashboard cpuImport, None)] \<and>
   world (syncPluginDashboards (fakeServices [changedDash] [] [] False) app 1 start) = 1"
proof -
  have h1: "calls (syncPluginDashboards (fakeServices [changedDash] [] [] False) app 1 start) =
     calls start @ [(CallListPluginDashboards 1 ''app'', None),
                    (CallLoadPluginDashboard ''app'' ''dashboards/cpu.json'', None),
                    (CallImportDashboard cpuImport, None)]
       @ (CallGetPluginSettingById ''app'' 1, Some (Error ''plugin setting not found'')) # []"
    by (simp add: run_defs)
  have h2: "step3_call (CallGetPluginSettingById ''app'' 1)"
    by (simp add: step3_call_def)
  have w: "replay (fakeServices [changedDash] [] [] False)
       (map fst [(CallListPluginDashboards 1 ''app'', None :: error option),
                    (CallLoadPluginDashboard ''app'' ''dashboards/cpu.json'', None),
                    (CallImportDashboard cpuImport, None)] @ [CallGetPluginSettingById ''app'' 1]) (world start) = 1"
    by (simp add: replay_def run_defs)
  from sync_final_step_failure[OF h1 h2] h1 h2 w show ?thesis by simp
qed

text \<open>
  C10. Every import call of a sync pass is made for user 0 with the Admin role in the
  organisation of the pass, into folder 0, with overwrite set and no inputs.
\<close>

theorem sync_imports_as_admin:
  assumes "calls (syncPluginDashboards sv plugin orgID s) = calls s @ evs"
    and "(CallImportDashboard req, r) \<in> set evs"
  shows "req_User req = \<lparr>su_UserId = 0, su_OrgRole = ROLE_ADMIN, su_OrgId = orgID\<rparr> \<and>
         req_FolderId req = 0 \<and> req_Overwrite req = True \<and> req_Inputs req = []"
proof -
  obtain evs' where ex: "extends sv s (syncPluginDashboards sv plugin orgID s) evs'"
    and pe: "pass_events plugin orgID evs'"
    using sync_calls by blast
  from extends_calls[OF ex assms(1)] pe have "pass_events plugin orgID evs" by simp
  from pass_events_import[OF this assms(2)] show ?thesis
    by (simp add: admin_import_def)
qed

theorem sync_imports_as_admin_witness:
  "calls (syncPluginDashboards (fakeServices [changedDash] [] [] True) app 1 start) =
     calls start @ [(CallListPluginDashboards 1 ''app'', None),
                    (CallLoadPluginDashboard ''app'' ''dashboards/cpu.json'', None),
                    (CallImportDashboard cpuImport, None),
                    (CallGetPluginSettingById ''app'' 1, None),
                    (CallUpdatePluginSettingVersion 1 ''app'' ''2.0.0'', None)] \<and>
   req_User cpuImport = \<lparr>su_UserId = 0, su_OrgRole = ROLE_ADMIN, su_OrgId = 1\<rparr> \<and>
   req_FolderId cpuImport = 0 \<and> req_Overwrite cpuImport = True \<and> req_Inputs cpuImport = []"
proof -
  have h1: "calls (syncPluginDashboards (fakeServices [changedDash] [] [] True) app 1 start) =
     calls start @ [(CallListPluginDashboards 1 ''app'', None),
                    (CallLoadPluginDashboard ''app'' ''dashboards/cpu.json'', None),
                    (CallImportDashboard cpuImport, None),
                    (CallGetPluginSettingById ''app'' 1, None),
                    (CallUpdatePluginSettingVersion 1 ''app'' ''2.0.0'', None)]"
    by (simp add: run_defs)
  have h2: "(CallImportDashboard cpuImport, None) \<in> set [(CallListPluginDashboards 1 ''app'', None),
                    (CallLoadPluginDashboard ''app'' ''dashboards/cpu.json'', None),
                    (CallImportDashboard cpuImport, None),
                    (CallGetPluginSettingById ''app'' 1, None),
                    (CallUpdatePluginSettingVersion 1 ''app'' ''2.0.0'', None)]"
    by simp
  from sync_imports_as_admin[OF h1 h2] h1 show ?thesis by blast
qed


end
